theory Spec2Isabelle
  imports Main "HOL-Library.Sublist"
begin

section \<open>Strings, characters and paths\<close>

text \<open>
  A \<open>std::string\<close> is a sequence of bytes: \<open>string\<close> (a list of 8-bit \<open>char\<close>s).
  A non-ASCII file name is its UTF-8 byte sequence. \<open>size_t\<close> positions are natural
  numbers (no string of the program comes near \<open>2^64\<close> bytes).
\<close>

type_synonym path = string

text \<open>
  \<open>std::tolower\<close> in the "C" locale, the only locale the program ever runs in (it never
  calls \<open>setlocale\<close>): the 26 upper-case ASCII letters are mapped to their lower-case
  counterparts, every other byte is returned as it is.
\<close>

definition tolower :: "char \<Rightarrow> char" where
  "tolower c =
     (case map_of (zip ''ABCDEFGHIJKLMNOPQRSTUVWXYZ'' ''abcdefghijklmnopqrstuvwxyz'') c of
        Some l \<Rightarrow> l
      | None \<Rightarrow> c)"

text \<open>
  \<open>comparePathsIgnoreCase\<close>: the four-iterator \<open>std::equal\<close> is true when both ranges have
  the same length and the predicate holds at every position, which is \<open>list_all2\<close>.
\<close>

definition comparePathsIgnoreCase :: "path \<Rightarrow> path \<Rightarrow> bool" where
  "comparePathsIgnoreCase a b =
     (let aStr = a; bStr = b
      in list_all2 (\<lambda>a b. tolower a = tolower b) aStr bStr)"

text \<open>
  The lexical operations of \<open>std::filesystem::path\<close> that the program uses, for the POSIX
  generic format (separator \<open>/\<close>, no root name).
  \<^item> \<open>filename\<close>: what follows the last separator (empty when the path ends in one);
  \<^item> \<open>parent_path\<close>: what precedes the last component, without the separators between
    them; the root directory is its own parent;
  \<^item> \<open>path_append\<close> (\<open>operator/\<close>): an absolute right operand replaces the left one;
    otherwise a separator is added when the left operand has a file name;
  \<^item> \<open>extension\<close>: from the last period of the file name, unless the file name is \<open>.\<close>,
    \<open>..\<close> or has its only period in front.
\<close>

definition filename :: "path \<Rightarrow> path" where
  "filename p = rev (takeWhile (\<lambda>c. c \<noteq> CHR ''/'') (rev p))"

definition parent_path :: "path \<Rightarrow> path" where
  "parent_path p =
     (let stem = dropWhile (\<lambda>c. c \<noteq> CHR ''/'') (rev p);
          dir = dropWhile (\<lambda>c. c = CHR ''/'') stem
      in if stem = [] then [] else if dir = [] then ''/'' else rev dir)"

definition is_absolute :: "path \<Rightarrow> bool" where
  "is_absolute p = (case p of [] \<Rightarrow> False | c # _ \<Rightarrow> c = CHR ''/'')"

definition path_append :: "path \<Rightarrow> path \<Rightarrow> path" where
  "path_append p q =
     (if is_absolute q then q
      else if filename p \<noteq> [] then p @ ''/'' @ q
      else p @ q)"

definition extension :: "path \<Rightarrow> string" where
  "extension p =
     (let f = filename p;
          sfx = rev (takeWhile (\<lambda>c. c \<noteq> CHR ''.'') (rev f))
      in if f = ''.'' \<or> f = ''..'' then []
         else if CHR ''.'' \<notin> set f \<or> Suc (length sfx) = length f then []
         else CHR ''.'' # sfx)"

section \<open>The filesystem and the parser, as the program sees them\<close>

text \<open>
  What a range-based \<open>for\<close> over a directory iterator observes: the entries one after
  the other, until the iteration either ends (\<open>Done\<close>) or throws
  \<open>fs::filesystem_error\<close> (\<open>Throw\<close>), from the constructor or from an increment.
\<close>

datatype 'a iter = Done | Throw | Next 'a "'a iter"

primrec yielded :: "'a iter \<Rightarrow> 'a list" where
  "yielded Done = []"
| "yielded Throw = []"
| "yielded (Next x it) = x # yielded it"

primrec throws :: "'a iter \<Rightarrow> bool" where
  "throws Done = False"
| "throws Throw = True"
| "throws (Next x it) = throws it"

record directory_entry =
  entry_path :: path
  is_regular_file :: bool

text \<open>
  What the program can throw: \<open>std::runtime_error\<close> with its message (from \<open>readFile\<close>
  and \<open>writeFile\<close>) and \<open>fs::filesystem_error\<close> (from the calls into
  \<open>std::filesystem\<close>).
\<close>

datatype error = RuntimeError string | FilesystemError

text \<open>
  The filesystem is a parameter of every operation.
  \<^item> \<open>exists p\<close> is \<open>fs::exists\<close>: true, false, or a \<open>filesystem_error\<close> when the status
    of \<open>p\<close> cannot be determined (a path prefix that may not be searched, a name that is
    too long).
  \<^item> \<open>directory_iterator d\<close> gives the names in directory \<open>d\<close> in the order the system
    lists them; the entry's \<open>path()\<close> is \<open>d / name\<close>.
  \<^item> \<open>relative p base\<close> is \<open>fs::relative\<close>: a path, or a \<open>filesystem_error\<close>.
  \<^item> A file has a content and can or cannot be opened for reading and for writing.
    Opening for writing truncates the file; of the text then written, the medium takes
    all (\<open>write_limit = None\<close>) or only the first \<open>n\<close> bytes (\<open>Some n\<close>: a disk that
    is full, a quota, an I/O error); the program does not test the stream after the write.
  \<^item> \<open>write_log\<close> records every file that was opened for writing, in order (a write
    changes the file's modification time even when the bytes stay the same).
\<close>

record filesystem =
  exists :: "path \<Rightarrow> error + bool"
  directory_iterator :: "path \<Rightarrow> string iter"
  recursive_directory_iterator :: "path \<Rightarrow> directory_entry iter"
  relative :: "path \<Rightarrow> path \<Rightarrow> error + path"
  file_content :: "path \<rightharpoonup> string"
  readable :: "path \<Rightarrow> bool"
  writable :: "path \<Rightarrow> bool"
  write_limit :: "path \<Rightarrow> nat option"
  write_log :: "path list"

text \<open>
  The parse tree of the Gumbo parser: an element node has attributes (name and decoded
  value, in source order) and children; every other node kind (document, text, comment,
  ...) is \<open>NonElement\<close>. The parser itself is a parameter: \<open>gumbo_parse content\<close> is the
  root of the output, or \<open>None\<close> for a null output.
\<close>

datatype GumboNode =
    Element (attributes: "(string \<times> string) list") (children: "GumboNode list")
  | NonElement

type_synonym parser = "string \<Rightarrow> GumboNode option"

text \<open>
  \<open>gumbo_get_attribute\<close>: the value of the first attribute whose name equals the given
  one, compared without regard to ASCII case.
\<close>

definition gumbo_get_attribute :: "(string \<times> string) list \<Rightarrow> string \<Rightarrow> string option" where
  "gumbo_get_attribute attrs name =
     map_option snd (find (\<lambda>(n, v). map tolower n = map tolower name) attrs)"

datatype diagnostic =
    ErrorAccessingDirectory
  | ErrorProcessing path error

section \<open>PathResolver: \<open>getActualPath\<close>\<close>

text \<open>
  The loop of \<open>getActualPath\<close> over the directory iterator: the first entry whose file
  name matches is returned; the end of the directory and a \<open>filesystem_error\<close> (caught)
  both give \<open>std::nullopt\<close>.
\<close>

fun getActualPath_loop :: "path \<Rightarrow> path \<Rightarrow> string iter \<Rightarrow> path option" where
  "getActualPath_loop dir p Done = None"
| "getActualPath_loop dir p Throw = None"
| "getActualPath_loop dir p (Next name it) =
     (let entry = path_append dir name
      in if comparePathsIgnoreCase (filename entry) (filename p) then Some entry
         else getActualPath_loop dir p it)"

text \<open>
  \<open>getActualPath\<close>: \<open>fs::exists\<close> is called outside the \<open>try\<close> block, so its
  \<open>filesystem_error\<close> leaves the function (\<open>Inl\<close>); otherwise the result is the optional
  path (\<open>Inr\<close>).
\<close>

definition getActualPath :: "filesystem \<Rightarrow> path \<Rightarrow> error + path option" where
  "getActualPath fs p =
     (case exists fs (parent_path p) of
        Inl e \<Rightarrow> Inl e
      | Inr parent_exists \<Rightarrow>
          if \<not> parent_exists then Inr None
          else Inr (getActualPath_loop (parent_path p) p (directory_iterator fs (parent_path p))))"

section \<open>ReferenceRewriter: \<open>replaceInContent\<close>\<close>

text \<open>
  \<open>std::string::find(str, pos)\<close>: the lowest index \<open>\<ge> pos\<close> at which \<open>str\<close> occurs, or
  \<open>npos\<close> (\<open>None\<close>). \<open>std::string::replace(pos, n, t)\<close> replaces the \<open>n\<close> characters at
  \<open>pos\<close> by \<open>t\<close>.
\<close>

fun search :: "string \<Rightarrow> string \<Rightarrow> nat \<Rightarrow> nat option" where
  "search [] pat i = (if pat = [] then Some i else None)"
| "search (c # cs) pat i = (if prefix pat (c # cs) then Some i else search cs pat (Suc i))"

definition find_str :: "string \<Rightarrow> string \<Rightarrow> nat \<Rightarrow> nat option" where
  "find_str s pat pos = (if pos > length s then None else search (drop pos s) pat pos)"

definition str_replace :: "string \<Rightarrow> nat \<Rightarrow> nat \<Rightarrow> string \<Rightarrow> string" where
  "str_replace s pos n t = take pos s @ t @ drop (pos + n) s"

text \<open>
  The \<open>while\<close> loop of \<open>replaceInContent\<close>, with the loop variables \<open>content\<close> and \<open>pos\<close>.
  Nothing in the loop bounds the number of iterations, so the loop is a partial
  function: \<open>None\<close> is "never returns".
\<close>

partial_function (option) replaceInContent_loop ::
  "string \<Rightarrow> string \<Rightarrow> string \<Rightarrow> nat \<Rightarrow> string option" where
  "replaceInContent_loop content oldStr newStr pos =
     (case find_str content oldStr pos of
        None \<Rightarrow> Some content
      | Some p \<Rightarrow>
          replaceInContent_loop (str_replace content p (length oldStr) newStr) oldStr newStr
            (p + length newStr))"

declare replaceInContent_loop.simps [code]

definition replaceInContent :: "string \<Rightarrow> string \<Rightarrow> string \<Rightarrow> string option" where
  "replaceInContent content oldStr newStr = replaceInContent_loop content oldStr newStr 0"

section \<open>Corrector: attributes, nodes, files, directories\<close>

text \<open>
  The functions below return \<open>None\<close> when they never return (\<open>replaceInContent\<close> does
  not), \<open>Some (Inl e)\<close> when they throw \<open>e\<close>, and \<open>Some (Inr x)\<close> when they return
  \<open>x\<close>. \<open>updateAttribute\<close> is given the attribute's value; its result is the new
  \<open>content\<close>.
\<close>

definition updateAttribute ::
  "filesystem \<Rightarrow> string \<Rightarrow> path \<Rightarrow> string \<Rightarrow> (error + string) option" where
  "updateAttribute fs attr_value htmlFile content =
     (let refPath = attr_value;
          fullPath = path_append (parent_path htmlFile) refPath
      in case getActualPath fs fullPath of
           Inl e \<Rightarrow> Some (Inl e)
         | Inr None \<Rightarrow> Some (Inr content)
         | Inr (Some actualPath) \<Rightarrow>
             (case relative fs actualPath (parent_path htmlFile) of
                Inl e \<Rightarrow> Some (Inl e)
              | Inr relativePath \<Rightarrow>
                  map_option Inr (replaceInContent content attr_value relativePath)))"

fun processNode ::
    "filesystem \<Rightarrow> GumboNode \<Rightarrow> path \<Rightarrow> string \<Rightarrow> (error + string) option"
  and processChildren ::
    "filesystem \<Rightarrow> GumboNode list \<Rightarrow> path \<Rightarrow> string \<Rightarrow> (error + string) option"
where
  "processNode fs NonElement htmlFile content = Some (Inr content)"
| "processNode fs (Element attrs cs) htmlFile content =
     (case (case gumbo_get_attribute attrs ''src'' of
              None \<Rightarrow> Some (Inr content)
            | Some src \<Rightarrow> updateAttribute fs src htmlFile content) of
        None \<Rightarrow> None
      | Some (Inl e) \<Rightarrow> Some (Inl e)
      | Some (Inr content1) \<Rightarrow>
          (case (case gumbo_get_attribute attrs ''href'' of
                   None \<Rightarrow> Some (Inr content1)
                 | Some href \<Rightarrow> updateAttribute fs href htmlFile content1) of
             None \<Rightarrow> None
           | Some (Inl e) \<Rightarrow> Some (Inl e)
           | Some (Inr content2) \<Rightarrow> processChildren fs cs htmlFile content2))"
| "processChildren fs [] htmlFile content = Some (Inr content)"
| "processChildren fs (node # nodes) htmlFile content =
     (case processNode fs node htmlFile content of
        None \<Rightarrow> None
      | Some (Inl e) \<Rightarrow> Some (Inl e)
      | Some (Inr content') \<Rightarrow> processChildren fs nodes htmlFile content')"

definition correctFileReferences ::
  "parser \<Rightarrow> filesystem \<Rightarrow> string \<Rightarrow> path \<Rightarrow> (error + string) option" where
  "correctFileReferences gumbo_parse fs content htmlFile =
     (case gumbo_parse content of
        None \<Rightarrow> Some (Inr content)
      | Some root \<Rightarrow> processNode fs root htmlFile content)"

definition readFile :: "filesystem \<Rightarrow> path \<Rightarrow> error + string" where
  "readFile fs p =
     (case file_content fs p of
        None \<Rightarrow> Inl (RuntimeError (''Cannot open file: '' @ p))
      | Some bytes \<Rightarrow>
          if readable fs p then Inr bytes else Inl (RuntimeError (''Cannot open file: '' @ p)))"

text \<open>
  \<open>writeFile\<close> tests the stream once, after the open, and not after \<open>file << content\<close>:
  when the open fails it throws and the file is as it was; otherwise it returns, and
  the file holds what the medium took of \<open>content\<close>.
\<close>

definition writeFile :: "filesystem \<Rightarrow> path \<Rightarrow> string \<Rightarrow> error + filesystem" where
  "writeFile fs p content =
     (if \<not> writable fs p then Inl (RuntimeError (''Cannot write file: '' @ p))
      else Inr (fs\<lparr>file_content :=
                     (file_content fs)
                       (p \<mapsto> (case write_limit fs p of
                                None \<Rightarrow> content
                              | Some n \<Rightarrow> take n content)),
                   write_log := write_log fs @ [p]\<rparr>))"

definition processFile :: "parser \<Rightarrow> filesystem \<Rightarrow> path \<Rightarrow> (error + filesystem) option" where
  "processFile gumbo_parse fs htmlFile =
     (case readFile fs htmlFile of
        Inl e \<Rightarrow> Some (Inl e)
      | Inr content \<Rightarrow>
          (case correctFileReferences gumbo_parse fs content htmlFile of
             None \<Rightarrow> None
           | Some (Inl e) \<Rightarrow> Some (Inl e)
           | Some (Inr corrected) \<Rightarrow>
               if content \<noteq> corrected then Some (writeFile fs htmlFile corrected)
               else Some (Inr fs)))"

section \<open>FileWalker: \<open>findHtmlFiles\<close>\<close>

definition validExtensions :: "string set" where
  "validExtensions = {''.html'', ''.htm''}"

text \<open>
  The loop of \<open>findHtmlFiles\<close> over the recursive iterator, with the vector \<open>htmlFiles\<close>
  as accumulator; the second component says whether the loop was left by the
  \<open>filesystem_error\<close> that the \<open>catch\<close> around it reports on \<open>std::cerr\<close>.
\<close>

fun findHtmlFiles_loop :: "directory_entry iter \<Rightarrow> path list \<Rightarrow> path list \<times> bool" where
  "findHtmlFiles_loop Done htmlFiles = (htmlFiles, False)"
| "findHtmlFiles_loop Throw htmlFiles = (htmlFiles, True)"
| "findHtmlFiles_loop (Next entry it) htmlFiles =
     (if is_regular_file entry then
        (let ext = map tolower (extension (entry_path entry))
         in if ext \<in> validExtensions
            then findHtmlFiles_loop it (htmlFiles @ [entry_path entry])
            else findHtmlFiles_loop it htmlFiles)
      else findHtmlFiles_loop it htmlFiles)"

definition findHtmlFiles :: "filesystem \<Rightarrow> path \<Rightarrow> path list \<times> diagnostic list" where
  "findHtmlFiles fs directory =
     (case findHtmlFiles_loop (recursive_directory_iterator fs directory) [] of
        (htmlFiles, caught) \<Rightarrow> (htmlFiles, if caught then [ErrorAccessingDirectory] else []))"

text \<open>
  \<open>processDirectory\<close>: the loop over the files found, each \<open>processFile\<close> in its own
  \<open>try\<close>, which catches every \<open>std::exception\<close>; the result is what was written to
  \<open>std::cerr\<close> and the filesystem left.
\<close>

fun processDirectory_loop ::
  "parser \<Rightarrow> filesystem \<Rightarrow> path list \<Rightarrow> (diagnostic list \<times> filesystem) option" where
  "processDirectory_loop gumbo_parse fs [] = Some ([], fs)"
| "processDirectory_loop gumbo_parse fs (htmlFile # rest) =
     (case processFile gumbo_parse fs htmlFile of
        None \<Rightarrow> None
      | Some (Inl e) \<Rightarrow>
          map_option (\<lambda>(ds, fs'). (ErrorProcessing htmlFile e # ds, fs'))
            (processDirectory_loop gumbo_parse fs rest)
      | Some (Inr fs1) \<Rightarrow> processDirectory_loop gumbo_parse fs1 rest)"

definition processDirectory ::
  "parser \<Rightarrow> filesystem \<Rightarrow> path \<Rightarrow> (diagnostic list \<times> filesystem) option" where
  "processDirectory gumbo_parse fs startDir =
     (case findHtmlFiles fs startDir of
        (htmlFiles, ds0) \<Rightarrow>
          map_option (\<lambda>(ds, fs'). (ds0 @ ds, fs'))
            (processDirectory_loop gumbo_parse fs htmlFiles))"

section \<open>Reference definitions for the properties\<close>

text \<open>
  Global, non-overlapping, leftmost-first replacement, said in one pass over the
  original text: reading from the left, an occurrence of \<open>old\<close> at the current position
  is replaced by \<open>new\<close> and reading goes on behind the occurrence; otherwise one
  character is copied. What was inserted is never read again.
\<close>

function replace_all_spec :: "string \<Rightarrow> string \<Rightarrow> string \<Rightarrow> string" where
  "replace_all_spec [] old new = []"
| "replace_all_spec (c # cs) old new =
     (if old \<noteq> [] \<and> prefix old (c # cs)
      then new @ replace_all_spec (drop (length old) (c # cs)) old new
      else c # replace_all_spec cs old new)"
  by pat_completeness auto
termination
  by (relation "measure (\<lambda>(text, old, new). length text)") auto

fun rewrite_spec :: "string \<Rightarrow> (string \<times> string) list \<Rightarrow> string" where
  "rewrite_spec text [] = text"
| "rewrite_spec text ((old, new) # corrections) =
     rewrite_spec (replace_all_spec text old new) corrections"

text \<open>
  The references of a document in the order \<open>processNode\<close> visits them: for each
  element its \<open>src\<close>, then its \<open>href\<close>, then its children from first to last.
\<close>

fun references :: "GumboNode \<Rightarrow> string list"
  and references_children :: "GumboNode list \<Rightarrow> string list"
where
  "references NonElement = []"
| "references (Element attrs cs) =
     (case gumbo_get_attribute attrs ''src'' of None \<Rightarrow> [] | Some src \<Rightarrow> [src]) @
     (case gumbo_get_attribute attrs ''href'' of None \<Rightarrow> [] | Some href \<Rightarrow> [href]) @
     references_children cs"
| "references_children [] = []"
| "references_children (node # nodes) = references node @ references_children nodes"

text \<open>
  The resolution of a reference of the document \<open>htmlFile\<close>, as \<open>updateAttribute\<close>
  computes it: a \<open>filesystem_error\<close> (\<open>Inl\<close>), absent (\<open>Inr None\<close>), or the path string
  that is put in place of the literal. The corrections of a list of references are the
  pairs (literal, resolution) of those that resolve, unless one resolution throws.
\<close>

definition resolve :: "filesystem \<Rightarrow> path \<Rightarrow> string \<Rightarrow> error + string option" where
  "resolve fs htmlFile literal =
     (case getActualPath fs (path_append (parent_path htmlFile) literal) of
        Inl e \<Rightarrow> Inl e
      | Inr None \<Rightarrow> Inr None
      | Inr (Some actualPath) \<Rightarrow>
          (case relative fs actualPath (parent_path htmlFile) of
             Inl e \<Rightarrow> Inl e
           | Inr relativePath \<Rightarrow> Inr (Some relativePath)))"

fun corrections ::
  "filesystem \<Rightarrow> path \<Rightarrow> string list \<Rightarrow> error + (string \<times> string) list" where
  "corrections fs htmlFile [] = Inr []"
| "corrections fs htmlFile (literal # literals) =
     (case resolve fs htmlFile literal of
        Inl e \<Rightarrow> Inl e
      | Inr None \<Rightarrow> corrections fs htmlFile literals
      | Inr (Some resolved) \<Rightarrow>
          (case corrections fs htmlFile literals of
             Inl e \<Rightarrow> Inl e
           | Inr cs \<Rightarrow> Inr ((literal, resolved) # cs)))"


text \<open>
  A directory never lists an entry with an empty name or with a separator in its name.
\<close>

definition valid_name :: "string \<Rightarrow> bool" where
  "valid_name name = (name \<noteq> [] \<and> CHR ''/'' \<notin> set name)"

definition wf_listing :: "filesystem \<Rightarrow> bool" where
  "wf_listing fs = (\<forall>dir. \<forall>name \<in> set (yielded (directory_iterator fs dir)). valid_name name)"

text \<open>
  What is on disk for a candidate path \<open>p\<close>: the first name that the parent directory
  of \<open>p\<close> lists and that matches the file name of \<open>p\<close> under \<open>comparePathsIgnoreCase\<close>.
\<close>

definition first_match :: "filesystem \<Rightarrow> path \<Rightarrow> string option" where
  "first_match fs p =
     find (\<lambda>name. comparePathsIgnoreCase (filename (path_append (parent_path p) name)) (filename p))
       (yielded (directory_iterator fs (parent_path p)))"

text \<open>
  A reference of the document \<open>htmlFile\<close> is \<open>exactly_cased\<close> when its parent directory
  exists, the first listed name that matches its file name is that very file name, and
  the reference is written as \<open>fs::relative\<close> writes the path of that entry. It
  \<open>names_nothing\<close> when its parent directory does not exist or lists no matching name.
\<close>

definition exactly_cased :: "filesystem \<Rightarrow> path \<Rightarrow> string \<Rightarrow> bool" where
  "exactly_cased fs htmlFile literal =
     (let full = path_append (parent_path htmlFile) literal
      in exists fs (parent_path full) = Inr True \<and>
         first_match fs full = Some (filename full) \<and>
         relative fs (path_append (parent_path full) (filename full)) (parent_path htmlFile)
           = Inr literal)"

definition names_nothing :: "filesystem \<Rightarrow> path \<Rightarrow> string \<Rightarrow> bool" where
  "names_nothing fs htmlFile literal =
     (let full = path_append (parent_path htmlFile) literal
      in exists fs (parent_path full) = Inr False \<or>
         (exists fs (parent_path full) = Inr True \<and> first_match fs full = None))"

text \<open>
  What \<open>fs::recursive_directory_iterator\<close> (default options) does on a directory tree:
  entries come in pre-order, a directory before its content; a directory that cannot
  be opened is reported as an entry, and the increment that would enter it throws.
  \<open>walks dir trees k\<close> is the iteration over the content \<open>trees\<close> of \<open>dir\<close>, followed by
  \<open>k\<close>.
\<close>

datatype fs_tree =
    RegularFile string
  | Directory string "fs_tree list"
  | Unreadable string

fun walk :: "path \<Rightarrow> fs_tree \<Rightarrow> directory_entry iter \<Rightarrow> directory_entry iter"
  and walks :: "path \<Rightarrow> fs_tree list \<Rightarrow> directory_entry iter \<Rightarrow> directory_entry iter"
where
  "walk dir (RegularFile name) k =
     Next \<lparr>entry_path = path_append dir name, is_regular_file = True\<rparr> k"
| "walk dir (Directory name content) k =
     Next \<lparr>entry_path = path_append dir name, is_regular_file = False\<rparr>
       (walks (path_append dir name) content k)"
| "walk dir (Unreadable name) k =
     Next \<lparr>entry_path = path_append dir name, is_regular_file = False\<rparr> Throw"
| "walks dir [] k = k"
| "walks dir (t # ts) k = walk dir t (walks dir ts k)"

text \<open>
  The HTML files in the directories that can be read: what a walk that skips an
  inaccessible subtree and continues would return.
\<close>

definition is_html :: "path \<Rightarrow> bool" where
  "is_html p = (map tolower (extension p) \<in> validExtensions)"

fun accessible_html :: "path \<Rightarrow> fs_tree \<Rightarrow> path list"
  and accessible_htmls :: "path \<Rightarrow> fs_tree list \<Rightarrow> path list"
where
  "accessible_html dir (RegularFile name) =
     (if is_html (path_append dir name) then [path_append dir name] else [])"
| "accessible_html dir (Directory name content) = accessible_htmls (path_append dir name) content"
| "accessible_html dir (Unreadable name) = []"
| "accessible_htmls dir [] = []"
| "accessible_htmls dir (t # ts) = accessible_html dir t @ accessible_htmls dir ts"

fun all_readable :: "fs_tree \<Rightarrow> bool"
  and all_readables :: "fs_tree list \<Rightarrow> bool"
where
  "all_readable (RegularFile name) = True"
| "all_readable (Directory name content) = all_readables content"
| "all_readable (Unreadable name) = False"
| "all_readables [] = True"
| "all_readables (t # ts) = (all_readable t \<and> all_readables ts)"

text \<open>
  The calls of \<open>updateAttribute\<close> that \<open>processNode\<close> makes, one after the other, on
  a list of attribute values.
\<close>

fun apply_updates ::
  "filesystem \<Rightarrow> string list \<Rightarrow> path \<Rightarrow> string \<Rightarrow> (error + string) option" where
  "apply_updates fs [] htmlFile content = Some (Inr content)"
| "apply_updates fs (literal # literals) htmlFile content =
     (case updateAttribute fs literal htmlFile content of
        None \<Rightarrow> None
      | Some (Inl e) \<Rightarrow> Some (Inl e)
      | Some (Inr content') \<Rightarrow> apply_updates fs literals htmlFile content')"



text \<open>
  The conditions on a document, before any run, under which a second run finds nothing
  to do.
  \<^item> \<open>non_interfering\<close>: a literal that is corrected (replaced by a different string)
    occurs in no other reference of the document and in no other resolved path.
  \<^item> \<open>resolves_in_place\<close>: the path that \<open>fs::relative\<close> gives for the entry found names
    that entry again: read from the document's directory it has the entry's file name,
    its directory exists and lists what the entry's directory lists, and \<open>fs::relative\<close>
    gives the same path for it.
  \<^item> When the document is rewritten and can be opened for writing, every reference
    that the parser finds in the text the file then holds is a reference of the
    original, rewritten as the text was (a null output has no references).
  A document that cannot be read, has no parse tree, or has a reference whose
  resolution throws is not changed by any run.
\<close>

definition non_interfering :: "(string \<times> string) list \<Rightarrow> string list \<Rightarrow> bool" where
  "non_interfering cs ws =
     list_all (\<lambda>(old, new). old = new \<or> list_all (\<lambda>w. w = old \<or> \<not> sublist old w) ws) cs"

definition resolves_in_place :: "filesystem \<Rightarrow> path \<Rightarrow> string \<Rightarrow> bool" where
  "resolves_in_place fs htmlFile literal =
     (case getActualPath fs (path_append (parent_path htmlFile) literal) of
        Inr (Some actualPath) \<Rightarrow>
          (case relative fs actualPath (parent_path htmlFile) of
             Inr relativePath \<Rightarrow>
               (let again = path_append (parent_path htmlFile) relativePath
                in filename again = filename actualPath \<and>
                   exists fs (parent_path again) = Inr True \<and>
                   directory_iterator fs (parent_path again) =
                     directory_iterator fs (parent_path actualPath) \<and>
                   relative fs (path_append (parent_path again) (filename again))
                     (parent_path htmlFile) = Inr relativePath)
           | Inl e \<Rightarrow> True)
      | _ \<Rightarrow> True)"

definition independent_references :: "parser \<Rightarrow> filesystem \<Rightarrow> path \<Rightarrow> bool" where
  "independent_references gumbo_parse fs htmlFile =
     (case readFile fs htmlFile of
        Inl e \<Rightarrow> True
      | Inr content \<Rightarrow>
          (case gumbo_parse content of
             None \<Rightarrow> True
           | Some root \<Rightarrow>
               (case corrections fs htmlFile (references root) of
                  Inl e \<Rightarrow> True
                | Inr cs \<Rightarrow>
                    non_interfering cs (references root @ map snd cs) \<and>
                    list_all (resolves_in_place fs htmlFile) (references root) \<and>
                    (rewrite_spec content cs \<noteq> content \<and> writable fs htmlFile \<longrightarrow>
                       (case gumbo_parse
                               (case write_limit fs htmlFile of
                                  None \<Rightarrow> rewrite_spec content cs
                                | Some n \<Rightarrow> take n (rewrite_spec content cs)) of
                          None \<Rightarrow> True
                        | Some root' \<Rightarrow>
                            list_all
                              (\<lambda>literal'. literal' \<in> set (map (\<lambda>literal. rewrite_spec literal cs)
                                                            (references root)))
                              (references root'))))))"

section \<open>Concrete filesystems and documents\<close>

text \<open>
  A filesystem given by tables: the names each directory lists (a path that is not in
  the table cannot be listed), the trees the recursive iterator walks, the values of
  \<open>fs::relative\<close> at the arguments that occur, and the file contents. The status of
  every path can be determined, every file can be read and written in full, nothing
  has been written yet. Attribute values in the documents are written without quotes,
  as HTML allows.
\<close>

definition fixture ::
  "(path \<times> string list) list \<Rightarrow> (path \<times> fs_tree list) list \<Rightarrow>
   ((path \<times> path) \<times> path) list \<Rightarrow> (path \<times> string) list \<Rightarrow> filesystem" where
  "fixture dirs trees rel files =
     \<lparr>exists = (\<lambda>p. Inr (map_of dirs p \<noteq> None \<or> map_of files p \<noteq> None)),
      directory_iterator =
        (\<lambda>d. case map_of dirs d of None \<Rightarrow> Throw | Some names \<Rightarrow> foldr Next names Done),
      recursive_directory_iterator =
        (\<lambda>d. case map_of trees d of None \<Rightarrow> Throw | Some ts \<Rightarrow> walks d ts Done),
      relative = (\<lambda>p base. Inr (case map_of rel (p, base) of None \<Rightarrow> p | Some r \<Rightarrow> r)),
      file_content = map_of files,
      readable = (\<lambda>p. True),
      writable = (\<lambda>p. True),
      write_limit = (\<lambda>p. None),
      write_log = []\<rparr>"

text \<open>The tree Gumbo builds around the content of a document: \<open>html\<close>, \<open>head\<close>, \<open>body\<close>.\<close>

definition html_doc :: "GumboNode list \<Rightarrow> GumboNode" where
  "html_doc body = Element [] [Element [] [], Element [] body]"

text \<open>
  A site with an image \<open>Test.jpg\<close> and two documents that refer to it as \<open>test.jpg\<close>;
  \<open>broken.html\<close> cannot be opened for reading. \<open>site_fs_corrected\<close> is the site after
  \<open>index.html\<close> was corrected.
\<close>

definition site_fs :: filesystem where
  "site_fs =
     (fixture
        [(''/site'', [''Test.jpg'', ''broken.html'', ''index.html''])]
        [(''/site'', [RegularFile ''Test.jpg'', RegularFile ''broken.html'', RegularFile ''index.html''])]
        [((''/site/Test.jpg'', ''/site''), ''Test.jpg'')]
        [(''/site/Test.jpg'', []),
         (''/site/broken.html'', ''<img src=test.jpg>''),
         (''/site/index.html'', ''<img src=test.jpg>'')])
     \<lparr>readable := (\<lambda>p. p \<noteq> ''/site/broken.html'')\<rparr>"

definition site_parse :: parser where
  "site_parse =
     map_of
       [(''<img src=test.jpg>'', html_doc [Element [(''src'', ''test.jpg'')] []]),
        (''<img src=Test.jpg>'', html_doc [Element [(''src'', ''Test.jpg'')] []])]"

definition site_fs_corrected :: filesystem where
  "site_fs_corrected =
     site_fs\<lparr>file_content := (file_content site_fs)(''/site/index.html'' \<mapsto> ''<img src=Test.jpg>''),
             write_log := write_log site_fs @ [''/site/index.html'']\<rparr>"

text \<open>
  The same site on a medium that cannot be written, and on a disk that is full: the
  open succeeds and truncates the file, no byte of the text is taken.
\<close>

definition readonly_fs :: filesystem where
  "readonly_fs = site_fs\<lparr>writable := (\<lambda>p. False)\<rparr>"

definition full_disk_fs :: filesystem where
  "full_disk_fs = site_fs\<lparr>write_limit := (\<lambda>p. Some 0)\<rparr>"

definition full_disk_fs_after :: filesystem where
  "full_disk_fs_after =
     full_disk_fs\<lparr>file_content := (file_content full_disk_fs)(''/site/index.html'' \<mapsto> []),
                  write_log := write_log full_disk_fs @ [''/site/index.html'']\<rparr>"

text \<open>
  The same site with a directory \<open>secret\<close> that may not be searched: the status of a
  path below it cannot be determined.
\<close>

definition guarded_fs :: filesystem where
  "guarded_fs =
     site_fs\<lparr>exists :=
               (\<lambda>p. if p = ''/site/secret/sub'' then Inl FilesystemError else exists site_fs p)\<rparr>"

text \<open>
  The two names of the repository's test \<open>HandlesSpecialCharacters\<close>, as UTF-8 bytes: the
  file on disk and the reference in the document (the same Cyrillic word, its first
  letter in upper and in lower case).
\<close>

definition cyrillic_name_on_disk :: string where
  "cyrillic_name_on_disk =
     [CHR 0xD0, CHR 0x98, CHR 0xD0, CHR 0xB7, CHR 0xD0, CHR 0xBE, CHR 0xD0, CHR 0xB1, CHR 0xD1,
      CHR 0x80, CHR 0xD0, CHR 0xB0, CHR 0xD0, CHR 0xB6, CHR 0xD0, CHR 0xB5, CHR 0xD0, CHR 0xBD,
      CHR 0xD0, CHR 0xB8, CHR 0xD0, CHR 0xB5, CHR ''.'', CHR ''j'', CHR ''p'', CHR ''g'']"

definition cyrillic_name_in_html :: string where
  "cyrillic_name_in_html =
     [CHR 0xD0, CHR 0xB8, CHR 0xD0, CHR 0xB7, CHR 0xD0, CHR 0xBE, CHR 0xD0, CHR 0xB1, CHR 0xD1,
      CHR 0x80, CHR 0xD0, CHR 0xB0, CHR 0xD0, CHR 0xB6, CHR 0xD0, CHR 0xB5, CHR 0xD0, CHR 0xBD,
      CHR 0xD0, CHR 0xB8, CHR 0xD0, CHR 0xB5, CHR ''.'', CHR ''j'', CHR ''p'', CHR ''g'']"

text \<open>A site that holds the file with the Cyrillic name.\<close>

definition cyrillic_fs :: filesystem where
  "cyrillic_fs =
     fixture [(''/site'', [cyrillic_name_on_disk, ''index.html''])] []
       [((path_append ''/site'' cyrillic_name_on_disk, ''/site''), cyrillic_name_on_disk)]
       [(path_append ''/site'' cyrillic_name_on_disk, [])]"

text \<open>
  A machine whose root directory holds \<open>Logo.png\<close> and whose site holds a directory
  named \<open>https:\<close> with \<open>example.com/X.jpg\<close> in it (the same directory is reached by the
  path with two separators); \<open>index.html\<close> refers to \<open>/logo.png\<close> and to
  \<open>https://example.com/x.jpg\<close>.
\<close>

definition root_fs :: filesystem where
  "root_fs =
     fixture
       [(''/'', [''Logo.png'', ''site'']),
        (''/site'', [''https:'', ''index.html'']),
        (''/site/https:'', [''example.com'']),
        (''/site/https:/example.com'', [''X.jpg'']),
        (''/site/https://example.com'', [''X.jpg''])]
       []
       [((''/Logo.png'', ''/site''), ''../Logo.png''),
        ((''/site/https://example.com/X.jpg'', ''/site''), ''https:/example.com/X.jpg'')]
       [(''/Logo.png'', []),
        (''/site/https:/example.com/X.jpg'', []),
        (''/site/index.html'', ''<a href=/logo.png><img src=https://example.com/x.jpg>'')]"

text \<open>
  A site with three subdirectories, listed in this order: \<open>docs\<close>, \<open>private\<close> (cannot be
  opened) and \<open>public\<close>.
\<close>

definition locked_tree :: "fs_tree list" where
  "locked_tree =
     [Directory ''docs'' [RegularFile ''a.html'', RegularFile ''notes.txt''],
      Unreadable ''private'',
      Directory ''public'' [RegularFile ''page.html'']]"

definition locked_fs :: filesystem where
  "locked_fs =
     fixture [(''/site'', [''docs'', ''private'', ''public''])] [(''/site'', locked_tree)] [] []"

text \<open>
  A document whose reference is written with a character reference: the markup has
  \<open>a&amp;b.jpg\<close>, the parser hands out the decoded value \<open>a&b.jpg\<close>, the file on disk is
  \<open>A&B.jpg\<close>.
\<close>

definition entity_fs :: filesystem where
  "entity_fs =
     fixture
       [(''/site'', [''A&B.jpg'', ''index.html''])]
       []
       [((''/site/A&B.jpg'', ''/site''), ''A&B.jpg'')]
       [(''/site/A&B.jpg'', []), (''/site/index.html'', ''<img src=a&amp;b.jpg>'')]"

definition entity_parse :: parser where
  "entity_parse =
     map_of [(''<img src=a&amp;b.jpg>'', html_doc [Element [(''src'', ''a&b.jpg'')] []])]"

text \<open>
  A document that refers to \<open>A.jpg\<close>, in its exact case, as \<open>./A.jpg\<close>; \<open>fs::relative\<close>
  gives the normal form \<open>A.jpg\<close>.
\<close>

definition dot_fs :: filesystem where
  "dot_fs =
     fixture
       [(''/site'', [''A.jpg'', ''index.html'']), (''/site/.'', [''A.jpg'', ''index.html''])]
       []
       [((''/site/./A.jpg'', ''/site''), ''A.jpg''), ((''/site/A.jpg'', ''/site''), ''A.jpg'')]
       [(''/site/A.jpg'', []), (''/site/index.html'', ''<img src=./A.jpg>'')]"

definition dot_parse :: parser where
  "dot_parse = map_of [(''<img src=./A.jpg>'', html_doc [Element [(''src'', ''./A.jpg'')] []])]"

text \<open>
  A directory of a case-sensitive filesystem that holds both \<open>test.jpg\<close> and
  \<open>TEST.JPG\<close>, listed in this order; the document refers to \<open>TEST.JPG\<close>.
\<close>

definition collide_fs :: filesystem where
  "collide_fs =
     fixture
       [(''/site'', [''test.jpg'', ''TEST.JPG'', ''index.html''])]
       []
       [((''/site/test.jpg'', ''/site''), ''test.jpg''), ((''/site/TEST.JPG'', ''/site''), ''TEST.JPG'')]
       [(''/site/test.jpg'', []), (''/site/TEST.JPG'', []),
        (''/site/index.html'', ''<img src=TEST.JPG>'')]"

definition collide_parse :: parser where
  "collide_parse = map_of [(''<img src=TEST.JPG>'', html_doc [Element [(''src'', ''TEST.JPG'')] []])]"

text \<open>
  A document with two references, \<open>a.jpg\<close> and \<open>xa.jpg\<close>, the first a part of the
  second; on disk the files are \<open>A.jpg\<close> and \<open>Xa.jpg\<close>. \<open>overlap_fs_run1\<close> and
  \<open>overlap_fs_run2\<close> are the site after one and after two runs.
\<close>

definition overlap_fs :: filesystem where
  "overlap_fs =
     fixture
       [(''/site'', [''A.jpg'', ''Xa.jpg'', ''index.html''])]
       [(''/site'', [RegularFile ''A.jpg'', RegularFile ''Xa.jpg'', RegularFile ''index.html''])]
       [((''/site/A.jpg'', ''/site''), ''A.jpg''), ((''/site/Xa.jpg'', ''/site''), ''Xa.jpg'')]
       [(''/site/A.jpg'', []), (''/site/Xa.jpg'', []),
        (''/site/index.html'', ''<img src=a.jpg><img src=xa.jpg>'')]"

definition overlap_parse :: parser where
  "overlap_parse =
     map_of
       [(''<img src=a.jpg><img src=xa.jpg>'',
           html_doc [Element [(''src'', ''a.jpg'')] [], Element [(''src'', ''xa.jpg'')] []]),
        (''<img src=A.jpg><img src=xA.jpg>'',
           html_doc [Element [(''src'', ''A.jpg'')] [], Element [(''src'', ''xA.jpg'')] []]),
        (''<img src=A.jpg><img src=Xa.jpg>'',
           html_doc [Element [(''src'', ''A.jpg'')] [], Element [(''src'', ''Xa.jpg'')] []])]"



text \<open>
  A directory in which \<open>A.jpg\<close> is a symbolic link to \<open>B.jpg\<close>, and which also holds
  \<open>b.jpg\<close>, listed before \<open>B.jpg\<close>; \<open>fs::relative\<close> resolves symbolic links, so for
  the entry \<open>A.jpg\<close> it gives \<open>B.jpg\<close>. The document refers to \<open>a.jpg\<close>.
  \<open>alias_fs_run1\<close> and \<open>alias_fs_run2\<close> are the site after one and after two runs.
\<close>

definition alias_fs :: filesystem where
  "alias_fs =
     fixture
       [(''/site'', [''A.jpg'', ''b.jpg'', ''B.jpg'', ''index.html''])]
       [(''/site'', [RegularFile ''A.jpg'', RegularFile ''b.jpg'', RegularFile ''B.jpg'',
                     RegularFile ''index.html''])]
       [((''/site/A.jpg'', ''/site''), ''B.jpg''), ((''/site/b.jpg'', ''/site''), ''b.jpg''),
        ((''/site/B.jpg'', ''/site''), ''B.jpg'')]
       [(''/site/A.jpg'', []), (''/site/b.jpg'', []), (''/site/B.jpg'', []),
        (''/site/index.html'', ''<img src=a.jpg>'')]"

definition alias_parse :: parser where
  "alias_parse =
     map_of
       [(''<img src=a.jpg>'', html_doc [Element [(''src'', ''a.jpg'')] []]),
        (''<img src=B.jpg>'', html_doc [Element [(''src'', ''B.jpg'')] []]),
        (''<img src=b.jpg>'', html_doc [Element [(''src'', ''b.jpg'')] []])]"

definition alias_fs_run1 :: filesystem where
  "alias_fs_run1 =
     alias_fs\<lparr>file_content := (file_content alias_fs)(''/site/index.html'' \<mapsto> ''<img src=B.jpg>''),
              write_log := write_log alias_fs @ [''/site/index.html'']\<rparr>"

definition alias_fs_run2 :: filesystem where
  "alias_fs_run2 =
     alias_fs_run1\<lparr>file_content :=
                     (file_content alias_fs_run1)(''/site/index.html'' \<mapsto> ''<img src=b.jpg>''),
                   write_log := write_log alias_fs_run1 @ [''/site/index.html'']\<rparr>"

section \<open>Evaluation of the concrete examples\<close>

lemmas path_defs = filename_def parent_path_def path_append_def is_absolute_def extension_def
lemmas cmp_defs = comparePathsIgnoreCase_def tolower_def
lemmas eval_defs = path_defs cmp_defs getActualPath_def updateAttribute_def replaceInContent_def
  find_str_def str_replace_def gumbo_get_attribute_def correctFileReferences_def readFile_def
  writeFile_def processFile_def findHtmlFiles_def processDirectory_def validExtensions_def
  resolve_def is_html_def html_doc_def fixture_def Let_def replaceInContent_loop.simps
  first_match_def exactly_cased_def names_nothing_def

lemma wf_fixture:
  assumes "list_all (\<lambda>(d, names). list_all valid_name names) dirs"
  shows "wf_listing (fixture dirs trees rel files)"
proof -
  have y: "yielded (foldr Next names Done) = names" for names :: "string list"
    by (induction names) auto
  show ?thesis
    unfolding wf_listing_def
  proof (intro allI ballI)
    fix dir name
    assume n: "name \<in> set (yielded (directory_iterator (fixture dirs trees rel files) dir))"
    show "valid_name name"
    proof (cases "map_of dirs dir")
      case None
      then show ?thesis using n by (simp add: fixture_def)
    next
      case (Some names)
      then have "(dir, names) \<in> set dirs" by (rule map_of_SomeD)
      with assms have "list_all valid_name names" by (auto simp: list_all_iff)
      moreover from n Some have "name \<in> set names" by (simp add: fixture_def y)
      ultimately show ?thesis by (simp add: list_all_iff)
    qed
  qed
qed

lemma wf_site: "wf_listing site_fs"
proof -
  have "wf_listing (fixture
        [(''/site'', [''Test.jpg'', ''broken.html'', ''index.html''])]
        [(''/site'', [RegularFile ''Test.jpg'', RegularFile ''broken.html'', RegularFile ''index.html''])]
        [((''/site/Test.jpg'', ''/site''), ''Test.jpg'')]
        [(''/site/Test.jpg'', []),
         (''/site/broken.html'', ''<img src=test.jpg>''),
         (''/site/index.html'', ''<img src=test.jpg>'')])"
    by (rule wf_fixture) (simp add: valid_name_def)
  then show ?thesis by (simp add: wf_listing_def site_fs_def)
qed

lemma wf_site_corrected: "wf_listing site_fs_corrected"
  using wf_site by (simp add: wf_listing_def site_fs_corrected_def)

lemma replace_all_spec_examples:
  "replace_all_spec ''aaa'' ''aa'' ''b'' = ''ba''"
  "replace_all_spec ''ab'' ''a'' ''aa'' = ''aab''"
  "replace_all_spec ''aXbXXc'' ''X'' ''YY'' = ''aYYbYYYYc''"
  by simp_all

section \<open>The rewriter: termination and refinement\<close>

lemma search_None:
  "old \<noteq> [] \<Longrightarrow> search s old i = None \<Longrightarrow> replace_all_spec s old new = s"
  by (induction s arbitrary: i) (auto split: if_splits)

lemma search_Some:
  "old \<noteq> [] \<Longrightarrow> search s old i = Some p \<Longrightarrow>
     \<exists>k. p = i + k \<and> k + length old \<le> length s \<and> take (length old) (drop k s) = old \<and>
         replace_all_spec s old new = take k s @ new @ replace_all_spec (drop (k + length old) s) old new"
proof (induction s arbitrary: i)
  case Nil
  then show ?case by simp
next
  case (Cons c cs)
  show ?case
  proof (cases "prefix old (c # cs)")
    case True
    then obtain zs where zs: "c # cs = old @ zs" by (auto simp: prefix_def)
    from True Cons.prems have "p = i" by simp
    moreover have "length old \<le> length (c # cs)" using True by (rule prefix_length_le)
    moreover have "take (length old) (c # cs) = old" using zs by simp
    ultimately show ?thesis using True Cons.prems(1)
      by (intro exI[of _ 0]) simp
  next
    case False
    with Cons.prems have "search cs old (Suc i) = Some p" by simp
    from Cons.IH[OF Cons.prems(1) this] obtain k where
      k: "p = Suc i + k" "k + length old \<le> length cs" "take (length old) (drop k cs) = old"
         "replace_all_spec cs old new = take k cs @ new @ replace_all_spec (drop (k + length old) cs) old new"
      by blast
    then show ?thesis using False
      by (intro exI[of _ "Suc k"]) simp
  qed
qed

lemma loop_refines:
  assumes "old \<noteq> []"
  shows "pos \<le> length content \<Longrightarrow>
     replaceInContent_loop content old new pos =
       Some (take pos content @ replace_all_spec (drop pos content) old new)"
proof (induction "length content - pos" arbitrary: content pos rule: less_induct)
  case less
  show ?case
  proof (cases "find_str content old pos")
    case None
    then have "search (drop pos content) old pos = None"
      using less.prems by (simp add: find_str_def)
    from search_None[OF assms this] None show ?thesis
      by (subst replaceInContent_loop.simps) simp
  next
    case (Some p)
    then have "search (drop pos content) old pos = Some p"
      using less.prems by (simp add: find_str_def split: if_splits)
    from search_Some[OF assms this, of new] obtain k where
      k: "p = pos + k" "k + length old \<le> length (drop pos content)"
         "take (length old) (drop k (drop pos content)) = old"
         "replace_all_spec (drop pos content) old new =
            take k (drop pos content) @ new @
            replace_all_spec (drop (k + length old) (drop pos content)) old new"
      by blast
    let ?c = "str_replace content p (length old) new"
    have len: "length ?c = p + length new + (length content - (p + length old))"
      using k(1,2) less.prems by (simp add: str_replace_def)
    have m: "length ?c - (p + length new) < length content - pos"
      using len k(1,2) assms less.prems by (cases old) auto
    have le: "p + length new \<le> length ?c" using len by simp
    have tk: "take (p + length new) ?c = take p content @ new"
      using k(1,2) less.prems by (simp add: str_replace_def)
    have dr: "drop (p + length new) ?c = drop (p + length old) content"
      using k(1,2) less.prems by (simp add: str_replace_def)
    have "replaceInContent_loop ?c old new (p + length new) =
            Some (take (p + length new) ?c @ replace_all_spec (drop (p + length new) ?c) old new)"
      by (rule less.hyps[OF m le])
    then have "replaceInContent_loop content old new pos =
            Some (take p content @ new @ replace_all_spec (drop (p + length old) content) old new)"
      using Some by (subst replaceInContent_loop.simps) (simp add: tk dr)
    moreover have "take pos content @ replace_all_spec (drop pos content) old new =
       take p content @ new @ replace_all_spec (drop (p + length old) content) old new"
    proof -
      have t: "take p content = take pos content @ take k (drop pos content)"
        unfolding k(1) by (rule take_add)
      have d: "drop (k + length old) (drop pos content) = drop (p + length old) content"
        unfolding k(1) by (simp add: ac_simps)
      show ?thesis unfolding k(4) t d by simp
    qed
    ultimately show ?thesis by simp
  qed
qed

lemma replaceInContent_refines:
  "old \<noteq> [] \<Longrightarrow> replaceInContent content old new = Some (replace_all_spec content old new)"
  using loop_refines[of old 0 content new] by (simp add: replaceInContent_def)


lemma replace_all_spec_same_aux: "new = old \<Longrightarrow> replace_all_spec s old new = s"
proof (induction s old new rule: replace_all_spec.induct)
  case (1 old new)
  then show ?case by simp
next
  case (2 c cs old new)
  show ?case
  proof (cases "old \<noteq> [] \<and> prefix old (c # cs)")
    case True
    then obtain zs where zs: "c # cs = old @ zs" by (auto simp: prefix_def)
    have "replace_all_spec (c # cs) old new = new @ replace_all_spec (drop (length old) (c # cs)) old new"
      using True by simp
    also have "\<dots> = old @ drop (length old) (c # cs)" using 2(1)[OF True 2(3)] 2(3) by simp
    also have "\<dots> = c # cs" using zs by simp
    finally show ?thesis .
  next
    case False
    then show ?thesis using 2(2)[OF False 2(3)] by auto
  qed
qed

lemma replace_all_spec_same: "replace_all_spec s old old = s"
  by (rule replace_all_spec_same_aux) simp

lemma loop_step_measure:
  assumes "oldStr \<noteq> []" "pos \<le> length content" "find_str content oldStr pos = Some p"
  shows "pos \<le> p"
    and "p + length oldStr \<le> length content"
    and "take (p + length newStr) (str_replace content p (length oldStr) newStr) = take p content @ newStr"
    and "length (str_replace content p (length oldStr) newStr) - (p + length newStr) < length content - pos"
proof -
  from assms have "search (drop pos content) oldStr pos = Some p"
    by (simp add: find_str_def split: if_splits)
  from search_Some[OF assms(1) this, of newStr] obtain k where
    k: "p = pos + k" "k + length oldStr \<le> length (drop pos content)" by blast
  show "pos \<le> p" using k by simp
  show a: "p + length oldStr \<le> length content" using k assms(2) by simp
  show "take (p + length newStr) (str_replace content p (length oldStr) newStr) = take p content @ newStr"
    using a by (simp add: str_replace_def)
  show "length (str_replace content p (length oldStr) newStr) - (p + length newStr) < length content - pos"
    using a k(1) assms(1,2) by (cases oldStr) (auto simp: str_replace_def)
qed

text \<open>
  Claim C10. For every content, every non-empty \<open>oldStr\<close> and every \<open>newStr\<close>,
  \<open>replaceInContent\<close> returns, and so does its loop from every scan position. Each
  iteration that replaces an occurrence found at \<open>p\<close> sets the scan position to
  \<open>p + length newStr\<close>, right behind the inserted replacement (the text before the new
  position is the old text before \<open>p\<close> followed by \<open>newStr\<close>), never backwards and
  strictly forwards when something is inserted, and the part of the text that is still
  to be scanned gets strictly shorter.
\<close>

theorem replaceInContent_terminates:
  assumes "oldStr \<noteq> []"
  shows "(\<exists>result. replaceInContent content oldStr newStr = Some result) \<and>
         (\<forall>pos. \<exists>result. replaceInContent_loop content oldStr newStr pos = Some result) \<and>
         (\<forall>pos p. pos \<le> length content \<longrightarrow> find_str content oldStr pos = Some p \<longrightarrow>
            pos \<le> p \<and> (newStr \<noteq> [] \<longrightarrow> pos < p + length newStr) \<and>
            take (p + length newStr) (str_replace content p (length oldStr) newStr)
              = take p content @ newStr \<and>
            length (str_replace content p (length oldStr) newStr) - (p + length newStr)
              < length content - pos)"
proof (intro conjI allI)
  show "\<exists>result. replaceInContent content oldStr newStr = Some result"
    using replaceInContent_refines[OF assms] by blast
next
  fix pos
  show "\<exists>result. replaceInContent_loop content oldStr newStr pos = Some result"
  proof (cases "pos \<le> length content")
    case True
    then show ?thesis using loop_refines[OF assms True] by blast
  next
    case False
    then have "find_str content oldStr pos = None" by (simp add: find_str_def)
    then show ?thesis by (subst replaceInContent_loop.simps) simp
  qed
next
  fix pos p
  show "pos \<le> length content \<longrightarrow> find_str content oldStr pos = Some p \<longrightarrow>
            pos \<le> p \<and> (newStr \<noteq> [] \<longrightarrow> pos < p + length newStr) \<and>
            take (p + length newStr) (str_replace content p (length oldStr) newStr)
              = take p content @ newStr \<and>
            length (str_replace content p (length oldStr) newStr) - (p + length newStr)
              < length content - pos"
  proof (intro impI)
    assume "pos \<le> length content" "find_str content oldStr pos = Some p"
    note s = loop_step_measure[OF assms this]
    have "pos < p + length newStr" if "newStr \<noteq> []"
      using s(1) that by (cases newStr) auto
    with s show "pos \<le> p \<and> (newStr \<noteq> [] \<longrightarrow> pos < p + length newStr) \<and>
            take (p + length newStr) (str_replace content p (length oldStr) newStr)
              = take p content @ newStr \<and>
            length (str_replace content p (length oldStr) newStr) - (p + length newStr)
              < length content - pos"
      by blast
  qed
qed

text \<open>The theorem at \<open>aXbXXc\<close>, \<open>X\<close>, \<open>YY\<close>: the iteration that starts at position 2.\<close>

theorem replaceInContent_terminates_witness:
  "(\<exists>result. replaceInContent ''aXbXXc'' ''X'' ''YY'' = Some result) \<and>
   find_str ''aXbXXc'' ''X'' 2 = Some 3 \<and>
   length (str_replace ''aXbXXc'' 3 (length ''X'') ''YY'') - (3 + length ''YY'') < length ''aXbXXc'' - 2"
proof -
  have ne: "''X'' \<noteq> []" by simp
  have f: "find_str ''aXbXXc'' ''X'' 2 = Some 3" by (simp add: find_str_def)
  have le: "(2::nat) \<le> length ''aXbXXc''" by simp
  from replaceInContent_terminates[OF ne, of "''aXbXXc''" "''YY''"] f le
  show ?thesis by blast
qed

text \<open>
  With an empty \<open>oldStr\<close> the loop never returns: \<open>find\<close> succeeds at the scan position
  itself, again and again.
\<close>

lemma replaceInContent_loop_empty_aux:
  assumes "replaceInContent_loop content oldStr newStr pos = Some r"
  shows "\<not> (oldStr = [] \<and> pos \<le> length content)"
proof (rule replaceInContent_loop.raw_induct
    [where P = "\<lambda>content oldStr newStr pos r. \<not> (oldStr = [] \<and> pos \<le> length content)", OF _ assms])
  fix f content oldStr newStr pos and r :: string
  assume IH: "\<And>content oldStr newStr pos r. f content oldStr newStr pos = Some r \<Longrightarrow>
                 \<not> (oldStr = [] \<and> pos \<le> length content)"
    and step: "(case find_str content oldStr pos of None \<Rightarrow> Some content
               | Some p \<Rightarrow> f (str_replace content p (length oldStr) newStr) oldStr newStr
                   (p + length newStr)) = Some r"
  show "\<not> (oldStr = [] \<and> pos \<le> length content)"
  proof
    assume a: "oldStr = [] \<and> pos \<le> length content"
    then have fs: "find_str content oldStr pos = Some pos"
      by (cases "drop pos content") (auto simp: find_str_def)
    with step have "f (str_replace content pos (length oldStr) newStr) oldStr newStr (pos + length newStr) = Some r"
      by simp
    from IH[OF this] a show False by (simp add: str_replace_def)
  qed
qed

lemma replaceInContent_empty_diverges: "replaceInContent content [] newStr = None"
proof (cases "replaceInContent content [] newStr")
  case None
  then show ?thesis .
next
  case (Some r)
  then show ?thesis using replaceInContent_loop_empty_aux[of content "[]" newStr 0 r]
    by (simp add: replaceInContent_def)
qed



section \<open>The path resolver\<close>

lemma comparePathsIgnoreCase_iff:
  "comparePathsIgnoreCase a b \<longleftrightarrow> map tolower a = map tolower b"
proof -
  have "list_all2 (\<lambda>a b. tolower a = tolower b) a b \<longleftrightarrow> map tolower a = map tolower b"
  proof (induction a arbitrary: b)
    case Nil
    then show ?case by auto
  next
    case (Cons x xs)
    then show ?case by (cases b) auto
  qed
  then show ?thesis by (simp add: comparePathsIgnoreCase_def)
qed

lemma comparePathsIgnoreCase_length:
  "comparePathsIgnoreCase a b \<Longrightarrow> length a = length b"
  by (simp add: comparePathsIgnoreCase_def list_all2_lengthD)

lemma filename_empty_iff: "filename p = [] \<longleftrightarrow> p = [] \<or> last p = CHR ''/''"
  by (cases p rule: rev_cases) (auto simp: filename_def)

lemma filename_append_name:
  assumes "CHR ''/'' \<notin> set name" "p = [] \<or> last p = CHR ''/''"
  shows "filename (p @ name) = name"
proof -
  have "takeWhile (\<lambda>c. c \<noteq> CHR ''/'') (rev name @ rev p) = rev name"
    using assms by (cases p rule: rev_cases) (auto simp: takeWhile_append)
  then show ?thesis by (simp add: filename_def)
qed

lemma filename_path_append:
  assumes "valid_name name"
  shows "filename (path_append dir name) = name"
proof -
  from assms have na: "\<not> is_absolute name" and ns: "CHR ''/'' \<notin> set name"
    by (cases name; auto simp: valid_name_def is_absolute_def)+
  show ?thesis
  proof (cases "filename dir \<noteq> []")
    case True
    have "filename ((dir @ ''/'') @ name) = name"
      by (rule filename_append_name[OF ns]) simp
    then show ?thesis using True na by (simp add: path_append_def)
  next
    case False
    then have "dir = [] \<or> last dir = CHR ''/''" by (simp add: filename_empty_iff)
    from filename_append_name[OF ns this] False na show ?thesis
      by (simp add: path_append_def)
  qed
qed

lemma filename_path_append_empty: "filename (path_append dir []) = []"
  by (auto simp: path_append_def is_absolute_def filename_empty_iff)

lemma getActualPath_loop_find:
  "getActualPath_loop dir p it =
     map_option (path_append dir)
       (find (\<lambda>name. comparePathsIgnoreCase (filename (path_append dir name)) (filename p))
          (yielded it))"
  by (induction it) (auto simp: Let_def)

lemma find_first_split:
  "find P xs = Some x \<longleftrightarrow> (\<exists>pre post. xs = pre @ x # post \<and> P x \<and> (\<forall>y\<in>set pre. \<not> P y))"
proof (induction xs)
  case Nil
  then show ?case by simp
next
  case (Cons a xs)
  show ?case
  proof (cases "P a")
    case True
    have "(\<exists>pre post. a # xs = pre @ x # post \<and> P x \<and> (\<forall>y\<in>set pre. \<not> P y)) \<longleftrightarrow> a = x"
    proof
      assume "\<exists>pre post. a # xs = pre @ x # post \<and> P x \<and> (\<forall>y\<in>set pre. \<not> P y)"
      then obtain pre post where h: "a # xs = pre @ x # post" "\<forall>y\<in>set pre. \<not> P y" by blast
      then show "a = x" using True by (cases pre) auto
    next
      assume "a = x"
      then show "\<exists>pre post. a # xs = pre @ x # post \<and> P x \<and> (\<forall>y\<in>set pre. \<not> P y)"
        using True by (intro exI[of _ "[]"] exI[of _ xs]) simp
    qed
    then show ?thesis using True by auto
  next
    case False
    have "(\<exists>pre post. a # xs = pre @ x # post \<and> P x \<and> (\<forall>y\<in>set pre. \<not> P y)) \<longleftrightarrow>
          (\<exists>pre post. xs = pre @ x # post \<and> P x \<and> (\<forall>y\<in>set pre. \<not> P y))"
    proof
      assume "\<exists>pre post. a # xs = pre @ x # post \<and> P x \<and> (\<forall>y\<in>set pre. \<not> P y)"
      then obtain pre post where h: "a # xs = pre @ x # post" "P x" "\<forall>y\<in>set pre. \<not> P y" by blast
      with False obtain pre' where "pre = a # pre'" by (cases pre) auto
      with h show "\<exists>pre post. xs = pre @ x # post \<and> P x \<and> (\<forall>y\<in>set pre. \<not> P y)" by auto
    next
      assume "\<exists>pre post. xs = pre @ x # post \<and> P x \<and> (\<forall>y\<in>set pre. \<not> P y)"
      then obtain pre post where h: "xs = pre @ x # post" "P x" "\<forall>y\<in>set pre. \<not> P y" by blast
      then show "\<exists>pre post. a # xs = pre @ x # post \<and> P x \<and> (\<forall>y\<in>set pre. \<not> P y)"
        using False by (intro exI[of _ "a # pre"] exI[of _ post]) simp
    qed
    then show ?thesis using False Cons.IH by simp
  qed
qed

lemma getActualPath_find:
  "getActualPath fs p =
     (case exists fs (parent_path p) of
        Inl e \<Rightarrow> Inl e
      | Inr parent_exists \<Rightarrow>
          if \<not> parent_exists then Inr None
          else Inr (map_option (path_append (parent_path p)) (first_match fs p)))"
  by (simp add: getActualPath_def getActualPath_loop_find first_match_def split: sum.splits)

lemma getActualPath_Some_iff:
  "getActualPath fs p = Inr (Some entry) \<longleftrightarrow>
     exists fs (parent_path p) = Inr True \<and>
     (\<exists>name. first_match fs p = Some name \<and> entry = path_append (parent_path p) name)"
  by (auto simp: getActualPath_find split: sum.splits)

lemma getActualPath_None_iff:
  "getActualPath fs p = Inr None \<longleftrightarrow>
     exists fs (parent_path p) = Inr False \<or>
     (exists fs (parent_path p) = Inr True \<and> first_match fs p = None)"
  by (auto simp: getActualPath_find split: sum.splits)

lemma getActualPath_throws_iff:
  "getActualPath fs p = Inl e \<longleftrightarrow> exists fs (parent_path p) = Inl e"
  by (auto simp: getActualPath_find split: sum.splits)

lemma first_match_Some_iff:
  "first_match fs p = Some name \<longleftrightarrow>
     (\<exists>pre post. yielded (directory_iterator fs (parent_path p)) = pre @ name # post \<and>
        comparePathsIgnoreCase (filename (path_append (parent_path p) name)) (filename p) \<and>
        (\<forall>n\<in>set pre. \<not> comparePathsIgnoreCase (filename (path_append (parent_path p) n)) (filename p)))"
  unfolding first_match_def by (rule find_first_split)

lemma first_match_None_iff:
  "first_match fs p = None \<longleftrightarrow>
     (\<forall>name\<in>set (yielded (directory_iterator fs (parent_path p))).
        \<not> comparePathsIgnoreCase (filename (path_append (parent_path p) name)) (filename p))"
  unfolding first_match_def by (auto simp: find_None_iff)

lemma first_match_listed:
  assumes "first_match fs p = Some name" "wf_listing fs"
  shows "name \<in> set (yielded (directory_iterator fs (parent_path p)))"
    and "valid_name name"
    and "filename (path_append (parent_path p) name) = name"
    and "map tolower name = map tolower (filename p)"
proof -
  from assms(1) obtain pre post where
    h: "yielded (directory_iterator fs (parent_path p)) = pre @ name # post"
       "comparePathsIgnoreCase (filename (path_append (parent_path p) name)) (filename p)"
    unfolding first_match_Some_iff by blast
  show l: "name \<in> set (yielded (directory_iterator fs (parent_path p)))" using h(1) by simp
  with assms(2) show v: "valid_name name" unfolding wf_listing_def by blast
  then show f: "filename (path_append (parent_path p) name) = name"
    by (rule filename_path_append)
  show "map tolower name = map tolower (filename p)"
    using h(2) unfolding f by (simp add: comparePathsIgnoreCase_iff)
qed




lemma resolve_Some_iff:
  "resolve fs htmlFile literal = Inr (Some resolved) \<longleftrightarrow>
     (\<exists>entry. getActualPath fs (path_append (parent_path htmlFile) literal) = Inr (Some entry) \<and>
        relative fs entry (parent_path htmlFile) = Inr resolved)"
  by (auto simp: resolve_def split: sum.splits option.splits)

lemma resolve_nonempty:
  assumes "wf_listing fs" "resolve fs htmlFile literal = Inr (Some resolved)"
  shows "literal \<noteq> []"
proof
  assume e: "literal = []"
  let ?p = "path_append (parent_path htmlFile) literal"
  from assms(2) obtain entry name where
    "first_match fs ?p = Some name"
    unfolding resolve_Some_iff getActualPath_Some_iff by blast
  note l = first_match_listed[OF this assms(1)]
  from l(2) have "name \<noteq> []" by (simp add: valid_name_def)
  moreover have "filename ?p = []" unfolding e by (rule filename_path_append_empty)
  ultimately show False using l(4) by simp
qed



lemma exactly_cased_resolves:
  assumes "exactly_cased fs htmlFile literal"
  shows "resolve fs htmlFile literal = Inr (Some literal)"
  using assms unfolding exactly_cased_def Let_def resolve_Some_iff getActualPath_Some_iff
  by blast

lemma names_nothing_resolves:
  assumes "names_nothing fs htmlFile literal"
  shows "resolve fs htmlFile literal = Inr None"
  using assms by (auto simp: names_nothing_def Let_def resolve_def getActualPath_find)

text \<open>
  Claim C1. \<open>comparePathsIgnoreCase\<close> folds the case of ASCII letters only. The names of
  the repository's test \<open>HandlesSpecialCharacters\<close>, which differ in the case of a Cyrillic
  letter, do not match, whereas \<open>TEST.JPG\<close> and \<open>test.jpg\<close> do.
\<close>

theorem cyrillic_names_do_not_match:
  "comparePathsIgnoreCase ''TEST.JPG'' ''test.jpg'' \<and>
   \<not> comparePathsIgnoreCase cyrillic_name_on_disk cyrillic_name_in_html"
  by (simp add: cyrillic_name_on_disk_def cyrillic_name_in_html_def cmp_defs)

text \<open>
  Claim C9. \<open>getActualPath\<close> does not find every entry that matches case-insensitively,
  and does not always return: the directory \<open>/site\<close> exists and lists the file with the
  Cyrillic name, the candidate is that name with its first letter in lower case, and the
  result is absent (whereas \<open>/site/test.jpg\<close> is found as \<open>/site/Test.jpg\<close>); where the
  status of the parent directory cannot be determined, \<open>fs::exists\<close>, called outside the
  \<open>try\<close> block, throws, and the result is neither found nor absent.
\<close>

theorem cyrillic_entry_is_not_found:
  "exists cyrillic_fs ''/site'' = Inr True \<and>
   yielded (directory_iterator cyrillic_fs ''/site'') = [cyrillic_name_on_disk, ''index.html''] \<and>
   parent_path (path_append ''/site'' cyrillic_name_in_html) = ''/site'' \<and>
   filename (path_append ''/site'' cyrillic_name_in_html) = cyrillic_name_in_html \<and>
   getActualPath cyrillic_fs (path_append ''/site'' cyrillic_name_in_html) = Inr None \<and>
   getActualPath site_fs ''/site/test.jpg'' = Inr (Some ''/site/Test.jpg'') \<and>
   exists guarded_fs (parent_path ''/site/secret/sub/x.jpg'') = Inl FilesystemError \<and>
   getActualPath guarded_fs ''/site/secret/sub/x.jpg'' = Inl FilesystemError"
  by (simp add: cyrillic_fs_def guarded_fs_def site_fs_def cyrillic_name_on_disk_def
      cyrillic_name_in_html_def eval_defs)

section \<open>The corrector on one document\<close>

lemma apply_updates_append:
  "apply_updates fs (xs @ ys) htmlFile content =
     (case apply_updates fs xs htmlFile content of
        None \<Rightarrow> None
      | Some (Inl e) \<Rightarrow> Some (Inl e)
      | Some (Inr content') \<Rightarrow> apply_updates fs ys htmlFile content')"
  by (induction xs arbitrary: content) (auto split: option.splits sum.splits)

lemma processNode_apply_updates:
  "processNode fs node htmlFile content = apply_updates fs (references node) htmlFile content"
  "processChildren fs nodes htmlFile content = apply_updates fs (references_children nodes) htmlFile content"
proof (induction fs node htmlFile content and fs nodes htmlFile content
    rule: processNode_processChildren.induct)
  case (1 fs htmlFile content)
  then show ?case by simp
next
  case (2 fs attrs cs htmlFile content)
  show ?case
    by (cases "gumbo_get_attribute attrs ''src''"; cases "gumbo_get_attribute attrs ''href''")
       (auto simp: 2 apply_updates_append split: option.splits sum.splits)
next
  case (3 fs htmlFile content)
  then show ?case by simp
next
  case (4 fs node nodes htmlFile content)
  then show ?case by (auto simp: apply_updates_append split: option.splits sum.splits)
qed

lemma updateAttribute_resolve:
  "updateAttribute fs literal htmlFile content =
     (case resolve fs htmlFile literal of
        Inl e \<Rightarrow> Some (Inl e)
      | Inr None \<Rightarrow> Some (Inr content)
      | Inr (Some resolved) \<Rightarrow> map_option Inr (replaceInContent content literal resolved))"
  by (simp add: updateAttribute_def resolve_def Let_def split: option.splits sum.splits)

lemma corrections_member:
  assumes "corrections fs htmlFile literals = Inr cs"
  shows "(old, new) \<in> set cs \<longleftrightarrow> old \<in> set literals \<and> resolve fs htmlFile old = Inr (Some new)"
  using assms
proof (induction literals arbitrary: cs)
  case Nil
  then show ?case by auto
next
  case (Cons v vs)
  then show ?case by (auto split: sum.splits option.splits)
qed


lemma corrections_nonempty:
  assumes "wf_listing fs" "corrections fs htmlFile literals = Inr cs" "(old, new) \<in> set cs"
  shows "old \<noteq> []"
  using assms corrections_member resolve_nonempty by blast

lemma apply_updates_refines:
  assumes "wf_listing fs"
  shows "apply_updates fs literals htmlFile content =
           (case corrections fs htmlFile literals of
              Inl e \<Rightarrow> Some (Inl e)
            | Inr cs \<Rightarrow> Some (Inr (rewrite_spec content cs)))"
proof (induction literals arbitrary: content)
  case Nil
  then show ?case by simp
next
  case (Cons v vs)
  show ?case
  proof (cases "resolve fs htmlFile v")
    case (Inl e)
    then show ?thesis by (simp add: updateAttribute_resolve)
  next
    case (Inr r)
    show ?thesis
    proof (cases r)
      case None
      then show ?thesis using Inr Cons by (simp add: updateAttribute_resolve)
    next
      case (Some resolved)
      from resolve_nonempty[OF assms] Inr Some have "v \<noteq> []" by blast
      then show ?thesis using Inr Some Cons
        by (simp add: updateAttribute_resolve replaceInContent_refines split: sum.splits)
    qed
  qed
qed

lemma replaceInContent_same:
  assumes "replaceInContent content literal literal = Some r"
  shows "r = content"
proof (cases "literal = []")
  case True
  then show ?thesis using assms by (simp add: replaceInContent_empty_diverges)
next
  case False
  then show ?thesis using assms by (simp add: replaceInContent_refines replace_all_spec_same)
qed

lemma apply_updates_trivial:
  assumes "\<forall>literal\<in>set literals. \<forall>resolved.
             resolve fs htmlFile literal = Inr (Some resolved) \<longrightarrow> resolved = literal"
      and "apply_updates fs literals htmlFile content = Some (Inr r)"
  shows "r = content"
  using assms
proof (induction literals arbitrary: content)
  case Nil
  then show ?case by simp
next
  case (Cons v vs)
  from Cons.prems(1) have rest: "\<forall>literal\<in>set vs. \<forall>resolved.
             resolve fs htmlFile literal = Inr (Some resolved) \<longrightarrow> resolved = literal"
    by simp
  show ?case
  proof (cases "resolve fs htmlFile v")
    case (Inl e)
    then show ?thesis using Cons.prems(2) by (simp add: updateAttribute_resolve)
  next
    case (Inr ro)
    show ?thesis
    proof (cases ro)
      case None
      then show ?thesis using Inr Cons.prems(2) Cons.IH[OF rest]
        by (simp add: updateAttribute_resolve)
    next
      case (Some r')
      with Inr Cons.prems(1) have eq: "r' = v" by simp
      from Cons.prems(2) Inr Some eq obtain c' where
        c': "replaceInContent content v v = Some c'" "apply_updates fs vs htmlFile c' = Some (Inr r)"
        by (auto simp: updateAttribute_resolve split: option.splits)
      from replaceInContent_same[OF c'(1)] have "c' = content" .
      with Cons.IH[OF rest] c'(2) show ?thesis by simp
    qed
  qed
qed

lemma rewrite_spec_trivial:
  "list_all (\<lambda>(old, new). old = new) cs \<Longrightarrow> rewrite_spec content cs = content"
  by (induction content cs rule: rewrite_spec.induct) (auto simp: replace_all_spec_same)

lemma corrections_trivial:
  assumes "\<forall>literal\<in>set literals.
             resolve fs htmlFile literal = Inr None \<or> resolve fs htmlFile literal = Inr (Some literal)"
  shows "\<exists>cs. corrections fs htmlFile literals = Inr cs \<and> list_all (\<lambda>(old, new). old = new) cs"
  using assms
proof (induction literals)
  case Nil
  then show ?case by simp
next
  case (Cons v vs)
  then obtain cs where "corrections fs htmlFile vs = Inr cs" "list_all (\<lambda>(old, new). old = new) cs"
    by auto
  moreover from Cons.prems have
    "resolve fs htmlFile v = Inr None \<or> resolve fs htmlFile v = Inr (Some v)" by simp
  ultimately show ?case by auto
qed

lemma writeFile_not_same: "writeFile fs p content \<noteq> Inr fs"
proof
  assume "writeFile fs p content = Inr fs"
  then have "write_log fs @ [p] = write_log fs"
    by (auto simp: writeFile_def split: if_splits dest: arg_cong[where f = write_log])
  then show False by simp
qed

text \<open>
  Claim C6. On a filesystem whose directories list valid names, \<open>replaceInContent\<close> with
  a non-empty \<open>old\<close> is the global, non-overlapping, leftmost-first replacement
  \<open>replace_all_spec\<close>; \<open>processNode\<close> applies it for each correction of the document, in
  document order (\<open>rewrite_spec\<close>), and so does \<open>correctFileReferences\<close>, unless the
  resolution of a reference throws, which happens before any text is replaced for it;
  when there is no correction the result is the input text.
\<close>

theorem rewriter_leftmost_first:
  assumes "wf_listing fs"
  shows "(old \<noteq> [] \<longrightarrow> replaceInContent content old new = Some (replace_all_spec content old new)) \<and>
         processNode fs root htmlFile content =
           (case corrections fs htmlFile (references root) of
              Inl e \<Rightarrow> Some (Inl e)
            | Inr cs \<Rightarrow> Some (Inr (rewrite_spec content cs))) \<and>
         (corrections fs htmlFile (references root) = Inr [] \<longrightarrow>
            processNode fs root htmlFile content = Some (Inr content)) \<and>
         correctFileReferences gumbo_parse fs content htmlFile =
           (case gumbo_parse content of
              None \<Rightarrow> Some (Inr content)
            | Some root \<Rightarrow>
                (case corrections fs htmlFile (references root) of
                   Inl e \<Rightarrow> Some (Inl e)
                 | Inr cs \<Rightarrow> Some (Inr (rewrite_spec content cs))))"
proof -
  have n: "processNode fs root htmlFile content =
           (case corrections fs htmlFile (references root) of
              Inl e \<Rightarrow> Some (Inl e)
            | Inr cs \<Rightarrow> Some (Inr (rewrite_spec content cs)))" for root
    by (simp add: processNode_apply_updates apply_updates_refines[OF assms])
  have "corrections fs htmlFile (references root) = Inr [] \<longrightarrow>
            processNode fs root htmlFile content = Some (Inr content)"
    by (simp add: n)
  moreover have "correctFileReferences gumbo_parse fs content htmlFile =
           (case gumbo_parse content of
              None \<Rightarrow> Some (Inr content)
            | Some root \<Rightarrow>
                (case corrections fs htmlFile (references root) of
                   Inl e \<Rightarrow> Some (Inl e)
                 | Inr cs \<Rightarrow> Some (Inr (rewrite_spec content cs))))"
    by (simp add: correctFileReferences_def n split: option.splits)
  ultimately show ?thesis using n replaceInContent_refines by blast
qed

text \<open>The theorem on the site's document, and on a document whose reference is absent.\<close>

theorem rewriter_leftmost_first_witness:
  "wf_listing site_fs \<and> ''test.jpg'' \<noteq> [] \<and>
   replaceInContent ''<img src=test.jpg>'' ''test.jpg'' ''Test.jpg'' = Some ''<img src=Test.jpg>'' \<and>
   processNode site_fs (html_doc [Element [(''src'', ''test.jpg'')] []]) ''/site/index.html''
      ''<img src=test.jpg>'' = Some (Inr ''<img src=Test.jpg>'') \<and>
   correctFileReferences site_parse site_fs ''<img src=test.jpg>'' ''/site/index.html''
      = Some (Inr ''<img src=Test.jpg>'') \<and>
   corrections site_fs ''/site/index.html'' (references (html_doc [Element [(''src'', ''missing.jpg'')] []]))
      = Inr [] \<and>
   processNode site_fs (html_doc [Element [(''src'', ''missing.jpg'')] []]) ''/site/index.html''
      ''<img src=missing.jpg>'' = Some (Inr ''<img src=missing.jpg>'')"
proof -
  have ne: "''test.jpg'' \<noteq> []" by simp
  have r: "replace_all_spec ''<img src=test.jpg>'' ''test.jpg'' ''Test.jpg'' = ''<img src=Test.jpg>''"
    by simp
  have p: "site_parse ''<img src=test.jpg>'' = Some (html_doc [Element [(''src'', ''test.jpg'')] []])"
    by (simp add: site_parse_def)
  have c: "corrections site_fs ''/site/index.html''
             (references (html_doc [Element [(''src'', ''test.jpg'')] []]))
           = Inr [(''test.jpg'', ''Test.jpg'')]"
    by (simp add: site_fs_def eval_defs)
  have e: "corrections site_fs ''/site/index.html''
             (references (html_doc [Element [(''src'', ''missing.jpg'')] []])) = Inr []"
    by (simp add: site_fs_def eval_defs)
  note t = rewriter_leftmost_first[OF wf_site,
      where old = "''test.jpg''" and new = "''Test.jpg''" and content = "''<img src=test.jpg>''"
        and root = "html_doc [Element [(''src'', ''test.jpg'')] []]"
        and htmlFile = "''/site/index.html''" and gumbo_parse = site_parse]
  from t ne r have 1: "replaceInContent ''<img src=test.jpg>'' ''test.jpg'' ''Test.jpg'' = Some ''<img src=Test.jpg>''"
    by simp
  from t c r have 2: "processNode site_fs (html_doc [Element [(''src'', ''test.jpg'')] []]) ''/site/index.html''
      ''<img src=test.jpg>'' = Some (Inr ''<img src=Test.jpg>'')"
    by simp
  from t p c r have 3: "correctFileReferences site_parse site_fs ''<img src=test.jpg>'' ''/site/index.html''
      = Some (Inr ''<img src=Test.jpg>'')"
    by simp
  from rewriter_leftmost_first[OF wf_site,
      where root = "html_doc [Element [(''src'', ''missing.jpg'')] []]"
        and htmlFile = "''/site/index.html''" and content = "''<img src=missing.jpg>''"] e
  have 4: "processNode site_fs (html_doc [Element [(''src'', ''missing.jpg'')] []]) ''/site/index.html''
      ''<img src=missing.jpg>'' = Some (Inr ''<img src=missing.jpg>'')"
    by blast
  from wf_site ne 1 2 3 e 4 show ?thesis by blast
qed

text \<open>
  Claim C2, as stated, fails: a value that starts with \<open>/\<close> and a value that contains
  \<open>://\<close> are resolved against the filesystem and, when an entry matches, altered in the
  document.
\<close>

theorem non_local_reference_is_resolved_and_altered:
  "updateAttribute root_fs ''/logo.png'' ''/site/index.html''
      ''<a href=/logo.png><img src=https://example.com/x.jpg>''
     = Some (Inr ''<a href=../Logo.png><img src=https://example.com/x.jpg>'') \<and>
   updateAttribute root_fs ''https://example.com/x.jpg'' ''/site/index.html''
      ''<a href=/logo.png><img src=https://example.com/x.jpg>''
     = Some (Inr ''<a href=/logo.png><img src=https:/example.com/X.jpg>'')"
  by (simp add: root_fs_def eval_defs)

text \<open>
  Claim C2, amended. \<open>updateAttribute\<close> treats every value alike: it resolves it against
  the filesystem (a value that starts with \<open>/\<close> as an absolute path) and leaves the
  content as it is whenever the resolution is absent. The empty value never resolves to
  an entry, on a filesystem whose directories list valid names, and is never altered:
  \<open>updateAttribute\<close> returns the content as it is, unless \<open>fs::exists\<close> throws.
\<close>

theorem unresolved_reference_is_unaltered:
  "updateAttribute fs literal htmlFile content =
     (case resolve fs htmlFile literal of
        Inl e \<Rightarrow> Some (Inl e)
      | Inr None \<Rightarrow> Some (Inr content)
      | Inr (Some resolved) \<Rightarrow> map_option Inr (replaceInContent content literal resolved)) \<and>
   (getActualPath fs (path_append (parent_path htmlFile) literal) = Inr None \<longrightarrow>
      updateAttribute fs literal htmlFile content = Some (Inr content)) \<and>
   (is_absolute literal \<longrightarrow> path_append (parent_path htmlFile) literal = literal) \<and>
   (wf_listing fs \<longrightarrow>
      getActualPath fs (path_append (parent_path htmlFile) []) =
        (case exists fs (parent_path (path_append (parent_path htmlFile) [])) of
           Inl e \<Rightarrow> Inl e
         | Inr parent_exists \<Rightarrow> Inr None) \<and>
      updateAttribute fs [] htmlFile content =
        (case exists fs (parent_path (path_append (parent_path htmlFile) [])) of
           Inl e \<Rightarrow> Some (Inl e)
         | Inr parent_exists \<Rightarrow> Some (Inr content)))"
proof (intro conjI impI)
  show "updateAttribute fs literal htmlFile content =
     (case resolve fs htmlFile literal of
        Inl e \<Rightarrow> Some (Inl e)
      | Inr None \<Rightarrow> Some (Inr content)
      | Inr (Some resolved) \<Rightarrow> map_option Inr (replaceInContent content literal resolved))"
    by (rule updateAttribute_resolve)
next
  assume "getActualPath fs (path_append (parent_path htmlFile) literal) = Inr None"
  then show "updateAttribute fs literal htmlFile content = Some (Inr content)"
    by (simp add: updateAttribute_def)
next
  assume "is_absolute literal"
  then show "path_append (parent_path htmlFile) literal = literal"
    by (simp add: path_append_def)
next
  assume wf: "wf_listing fs"
  let ?p = "path_append (parent_path htmlFile) []"
  have ns: "getActualPath fs ?p \<noteq> Inr (Some entry)" for entry
  proof
    assume g: "getActualPath fs ?p = Inr (Some entry)"
    then obtain name where "first_match fs ?p = Some name"
      unfolding getActualPath_Some_iff by blast
    note l = first_match_listed[OF this wf]
    from l(2) have "name \<noteq> []" by (simp add: valid_name_def)
    moreover have "filename ?p = []" by (rule filename_path_append_empty)
    ultimately show False using l(4) by simp
  qed
  show g: "getActualPath fs ?p =
        (case exists fs (parent_path ?p) of Inl e \<Rightarrow> Inl e | Inr parent_exists \<Rightarrow> Inr None)"
  proof (cases "getActualPath fs ?p")
    case (Inl e)
    then show ?thesis by (simp add: getActualPath_throws_iff)
  next
    case (Inr r)
    with ns have n: "getActualPath fs ?p = Inr None" by (cases r) auto
    then show ?thesis unfolding n using n[unfolded getActualPath_None_iff] by auto
  qed
  show "updateAttribute fs [] htmlFile content =
        (case exists fs (parent_path ?p) of
           Inl e \<Rightarrow> Some (Inl e)
         | Inr parent_exists \<Rightarrow> Some (Inr content))"
    by (simp add: updateAttribute_def g split: sum.splits)
qed

text \<open>
  The theorem on the site: \<open>https://example.com/x.jpg\<close> resolves to absent there and is
  left alone, and so is the empty value.
\<close>

theorem unresolved_reference_is_unaltered_witness:
  "getActualPath site_fs (path_append (parent_path ''/site/index.html'') ''https://example.com/x.jpg'')
     = Inr None \<and>
   updateAttribute site_fs ''https://example.com/x.jpg'' ''/site/index.html''
      ''<img src=https://example.com/x.jpg>'' = Some (Inr ''<img src=https://example.com/x.jpg>'') \<and>
   is_absolute ''/logo.png'' \<and>
   path_append (parent_path ''/site/index.html'') ''/logo.png'' = ''/logo.png'' \<and>
   wf_listing site_fs \<and>
   exists site_fs (parent_path (path_append (parent_path ''/site/index.html'') [])) = Inr True \<and>
   getActualPath site_fs (path_append (parent_path ''/site/index.html'') []) = Inr None \<and>
   updateAttribute site_fs [] ''/site/index.html'' ''<img src=>'' = Some (Inr ''<img src=>'')"
proof -
  have a: "getActualPath site_fs (path_append (parent_path ''/site/index.html'') ''https://example.com/x.jpg'')
     = Inr None"
    by (simp add: site_fs_def eval_defs)
  have b: "is_absolute ''/logo.png''" by (simp add: is_absolute_def)
  have x: "exists site_fs (parent_path (path_append (parent_path ''/site/index.html'') [])) = Inr True"
    by (simp add: site_fs_def eval_defs)
  from unresolved_reference_is_unaltered
         [of site_fs "''https://example.com/x.jpg''" "''/site/index.html''"
             "''<img src=https://example.com/x.jpg>''"] a
  have 1: "updateAttribute site_fs ''https://example.com/x.jpg'' ''/site/index.html''
      ''<img src=https://example.com/x.jpg>'' = Some (Inr ''<img src=https://example.com/x.jpg>'')"
    by blast
  from unresolved_reference_is_unaltered[of site_fs "''/logo.png''" "''/site/index.html''" "[]"] b
  have 2: "path_append (parent_path ''/site/index.html'') ''/logo.png'' = ''/logo.png''"
    by blast
  from unresolved_reference_is_unaltered[of site_fs "[]" "''/site/index.html''" "''<img src=>''"] wf_site
  have 3: "getActualPath site_fs (path_append (parent_path ''/site/index.html'') []) =
        (case exists site_fs (parent_path (path_append (parent_path ''/site/index.html'') [])) of
           Inl e \<Rightarrow> Inl e
         | Inr parent_exists \<Rightarrow> Inr None) \<and>
      updateAttribute site_fs [] ''/site/index.html'' ''<img src=>'' =
        (case exists site_fs (parent_path (path_append (parent_path ''/site/index.html'') [])) of
           Inl e \<Rightarrow> Some (Inl e)
         | Inr parent_exists \<Rightarrow> Some (Inr ''<img src=>''))"
    by blast
  from 3 have 4: "getActualPath site_fs (path_append (parent_path ''/site/index.html'') []) = Inr None"
    and 5: "updateAttribute site_fs [] ''/site/index.html'' ''<img src=>'' = Some (Inr ''<img src=>'')"
    unfolding x by simp_all
  from a b x 1 2 4 5 wf_site show ?thesis by blast
qed

lemma processFile_changes_iff:
  "processFile gumbo_parse fs htmlFile = Some (Inr fs') \<and> fs' \<noteq> fs \<longleftrightarrow>
     (\<exists>content corrected. readFile fs htmlFile = Inr content \<and>
        correctFileReferences gumbo_parse fs content htmlFile = Some (Inr corrected) \<and>
        corrected \<noteq> content \<and> writeFile fs htmlFile corrected = Inr fs')"
  using writeFile_not_same[of fs htmlFile]
  by (auto simp: processFile_def split: sum.splits option.splits if_splits)

lemma correctFileReferences_changed:
  assumes "correctFileReferences gumbo_parse fs content htmlFile = Some (Inr corrected)"
      and "corrected \<noteq> content"
  shows "\<exists>root literal resolved. gumbo_parse content = Some root \<and> literal \<in> set (references root) \<and>
           resolve fs htmlFile literal = Inr (Some resolved) \<and> resolved \<noteq> literal"
proof (cases "gumbo_parse content")
  case None
  then show ?thesis using assms by (simp add: correctFileReferences_def)
next
  case (Some root)
  then have a: "apply_updates fs (references root) htmlFile content = Some (Inr corrected)"
    using assms(1) by (simp add: correctFileReferences_def processNode_apply_updates)
  have "\<not> (\<forall>literal\<in>set (references root). \<forall>resolved.
             resolve fs htmlFile literal = Inr (Some resolved) \<longrightarrow> resolved = literal)"
    using apply_updates_trivial[OF _ a] assms(2) by blast
  then show ?thesis using Some by blast
qed

text \<open>
  Claim C4, as stated, fails from right to left: the reference \<open>a&b.jpg\<close> resolves to
  \<open>A&B.jpg\<close>, which differs from it, but the markup spells it \<open>a&amp;b.jpg\<close>; nothing is
  replaced and nothing is written, although the file can be written.
\<close>

theorem differing_resolution_without_write:
  "readFile entity_fs ''/site/index.html'' = Inr ''<img src=a&amp;b.jpg>'' \<and>
   entity_parse ''<img src=a&amp;b.jpg>'' = Some (html_doc [Element [(''src'', ''a&b.jpg'')] []]) \<and>
   references (html_doc [Element [(''src'', ''a&b.jpg'')] []]) = [''a&b.jpg''] \<and>
   resolve entity_fs ''/site/index.html'' ''a&b.jpg'' = Inr (Some ''A&B.jpg'') \<and>
   writable entity_fs ''/site/index.html'' \<and>
   processFile entity_parse entity_fs ''/site/index.html'' = Some (Inr entity_fs)"
  by (simp add: entity_fs_def entity_parse_def eval_defs)

text \<open>
  Claim C4, amended. \<open>processFile\<close> writes the document (\<open>writeFile\<close> opens it and sends
  it the corrected text; \<open>processFile\<close> returns with a changed filesystem) if and only if
  the file can be read, the correction of its references returns a text, this text
  differs from the content read, and the file can be opened for writing. A write implies
  that at least one reference of the document resolves to a path string that differs
  from its literal. When no reference of the document resolves to a path string that
  differs from its literal, a correction that returns gives the content read, and
  \<open>processFile\<close> never returns with a changed filesystem: no write occurs.
\<close>

theorem processFile_rewrites_iff_text_changed:
  "(\<forall>fs'. processFile gumbo_parse fs htmlFile = Some (Inr fs') \<and> fs' \<noteq> fs \<longleftrightarrow>
      (\<exists>content corrected. readFile fs htmlFile = Inr content \<and>
         correctFileReferences gumbo_parse fs content htmlFile = Some (Inr corrected) \<and>
         corrected \<noteq> content \<and> writeFile fs htmlFile corrected = Inr fs')) \<and>
   (\<forall>fs'. processFile gumbo_parse fs htmlFile = Some (Inr fs') \<longrightarrow> fs' \<noteq> fs \<longrightarrow>
      (\<exists>content root literal resolved. readFile fs htmlFile = Inr content \<and>
         gumbo_parse content = Some root \<and> literal \<in> set (references root) \<and>
         resolve fs htmlFile literal = Inr (Some resolved) \<and> resolved \<noteq> literal)) \<and>
   ((\<forall>content root. readFile fs htmlFile = Inr content \<longrightarrow> gumbo_parse content = Some root \<longrightarrow>
        (\<forall>literal\<in>set (references root). \<forall>resolved.
           resolve fs htmlFile literal = Inr (Some resolved) \<longrightarrow> resolved = literal)) \<longrightarrow>
      (\<forall>content corrected. readFile fs htmlFile = Inr content \<longrightarrow>
         correctFileReferences gumbo_parse fs content htmlFile = Some (Inr corrected) \<longrightarrow>
         corrected = content) \<and>
      (\<forall>fs'. processFile gumbo_parse fs htmlFile = Some (Inr fs') \<longrightarrow> fs' = fs))"
proof (intro conjI allI impI)
  fix fs'
  show "processFile gumbo_parse fs htmlFile = Some (Inr fs') \<and> fs' \<noteq> fs \<longleftrightarrow>
      (\<exists>content corrected. readFile fs htmlFile = Inr content \<and>
         correctFileReferences gumbo_parse fs content htmlFile = Some (Inr corrected) \<and>
         corrected \<noteq> content \<and> writeFile fs htmlFile corrected = Inr fs')"
    by (rule processFile_changes_iff)
next
  fix fs'
  assume "processFile gumbo_parse fs htmlFile = Some (Inr fs')" "fs' \<noteq> fs"
  then obtain content corrected where
    h: "readFile fs htmlFile = Inr content"
       "correctFileReferences gumbo_parse fs content htmlFile = Some (Inr corrected)"
       "corrected \<noteq> content"
    using processFile_changes_iff[of gumbo_parse fs htmlFile fs'] by blast
  from correctFileReferences_changed[OF h(2,3)] h(1)
  show "\<exists>content root literal resolved. readFile fs htmlFile = Inr content \<and>
         gumbo_parse content = Some root \<and> literal \<in> set (references root) \<and>
         resolve fs htmlFile literal = Inr (Some resolved) \<and> resolved \<noteq> literal"
    by blast
next
  fix content corrected
  assume t: "\<forall>content root. readFile fs htmlFile = Inr content \<longrightarrow> gumbo_parse content = Some root \<longrightarrow>
        (\<forall>literal\<in>set (references root). \<forall>resolved.
           resolve fs htmlFile literal = Inr (Some resolved) \<longrightarrow> resolved = literal)"
    and r: "readFile fs htmlFile = Inr content"
    and c: "correctFileReferences gumbo_parse fs content htmlFile = Some (Inr corrected)"
  show "corrected = content"
  proof (rule ccontr)
    assume "corrected \<noteq> content"
    from correctFileReferences_changed[OF c this] t r show False by blast
  qed
next
  fix fs'
  assume t: "\<forall>content root. readFile fs htmlFile = Inr content \<longrightarrow> gumbo_parse content = Some root \<longrightarrow>
        (\<forall>literal\<in>set (references root). \<forall>resolved.
           resolve fs htmlFile literal = Inr (Some resolved) \<longrightarrow> resolved = literal)"
    and p: "processFile gumbo_parse fs htmlFile = Some (Inr fs')"
  show "fs' = fs"
  proof (rule ccontr)
    assume n: "fs' \<noteq> fs"
    with p obtain content corrected where
      h: "readFile fs htmlFile = Inr content"
         "correctFileReferences gumbo_parse fs content htmlFile = Some (Inr corrected)"
         "corrected \<noteq> content"
      using processFile_changes_iff[of gumbo_parse fs htmlFile fs'] by blast
    from correctFileReferences_changed[OF h(2,3)] t h(1) show False by blast
  qed
qed

text \<open>The theorem on the site, before and after the correction of \<open>index.html\<close>.\<close>

theorem processFile_rewrites_iff_text_changed_witness:
  "readFile site_fs ''/site/index.html'' = Inr ''<img src=test.jpg>'' \<and>
   correctFileReferences site_parse site_fs ''<img src=test.jpg>'' ''/site/index.html''
     = Some (Inr ''<img src=Test.jpg>'') \<and>
   writeFile site_fs ''/site/index.html'' ''<img src=Test.jpg>'' = Inr site_fs_corrected \<and>
   processFile site_parse site_fs ''/site/index.html'' = Some (Inr site_fs_corrected) \<and>
   site_fs_corrected \<noteq> site_fs \<and>
   site_parse ''<img src=test.jpg>'' = Some (html_doc [Element [(''src'', ''test.jpg'')] []]) \<and>
   resolve site_fs ''/site/index.html'' ''test.jpg'' = Inr (Some ''Test.jpg'') \<and>
   processFile site_parse site_fs_corrected ''/site/index.html'' = Some (Inr site_fs_corrected)"
proof -
  have a: "readFile site_fs ''/site/index.html'' = Inr ''<img src=test.jpg>''"
    by (simp add: site_fs_def eval_defs)
  have b: "correctFileReferences site_parse site_fs ''<img src=test.jpg>'' ''/site/index.html''
     = Some (Inr ''<img src=Test.jpg>'')"
    by (simp add: site_fs_def site_parse_def eval_defs)
  have c: "''<img src=Test.jpg>'' \<noteq> ''<img src=test.jpg>''" by simp
  have w: "writeFile site_fs ''/site/index.html'' ''<img src=Test.jpg>'' = Inr site_fs_corrected"
    by (simp add: site_fs_corrected_def site_fs_def eval_defs)
  have p: "site_parse ''<img src=test.jpg>'' = Some (html_doc [Element [(''src'', ''test.jpg'')] []])"
    by (simp add: site_parse_def)
  have r: "resolve site_fs ''/site/index.html'' ''test.jpg'' = Inr (Some ''Test.jpg'')"
    by (simp add: site_fs_def eval_defs)
  note t = processFile_rewrites_iff_text_changed[of site_parse site_fs "''/site/index.html''"]
  from t a b c w
  have 1: "processFile site_parse site_fs ''/site/index.html'' = Some (Inr site_fs_corrected) \<and>
           site_fs_corrected \<noteq> site_fs"
    by blast
  have a': "readFile site_fs_corrected ''/site/index.html'' = Inr ''<img src=Test.jpg>''"
    by (simp add: site_fs_corrected_def site_fs_def eval_defs)
  have q: "processFile site_parse site_fs_corrected ''/site/index.html'' = Some (Inr site_fs_corrected)"
    by (simp add: site_fs_corrected_def site_fs_def site_parse_def eval_defs)
  have s: "\<forall>content root. readFile site_fs_corrected ''/site/index.html'' = Inr content \<longrightarrow>
        site_parse content = Some root \<longrightarrow>
        (\<forall>literal\<in>set (references root). \<forall>resolved.
           resolve site_fs_corrected ''/site/index.html'' literal = Inr (Some resolved) \<longrightarrow>
           resolved = literal)"
    by (simp add: site_fs_corrected_def site_fs_def site_parse_def eval_defs)
  from processFile_rewrites_iff_text_changed[of site_parse site_fs_corrected "''/site/index.html''"] s q
  have 2: "processFile site_parse site_fs_corrected ''/site/index.html'' = Some (Inr site_fs_corrected)"
    by blast
  from a b w 1 p r 2 show ?thesis by blast
qed

lemma exactly_cased_no_op:
  assumes "readFile fs htmlFile = Inr content" "wf_listing fs"
      and "\<forall>root. gumbo_parse content = Some root \<longrightarrow>
             (\<forall>literal\<in>set (references root).
                exactly_cased fs htmlFile literal \<or> names_nothing fs htmlFile literal)"
  shows "correctFileReferences gumbo_parse fs content htmlFile = Some (Inr content)"
    and "processFile gumbo_parse fs htmlFile = Some (Inr fs)"
proof -
  show c: "correctFileReferences gumbo_parse fs content htmlFile = Some (Inr content)"
  proof (cases "gumbo_parse content")
    case None
    then show ?thesis by (simp add: correctFileReferences_def)
  next
    case (Some root)
    with assms(3) have "\<forall>literal\<in>set (references root).
             resolve fs htmlFile literal = Inr None \<or> resolve fs htmlFile literal = Inr (Some literal)"
      using exactly_cased_resolves names_nothing_resolves by blast
    from corrections_trivial[OF this] obtain cs where
      "corrections fs htmlFile (references root) = Inr cs" "list_all (\<lambda>(old, new). old = new) cs"
      by blast
    then show ?thesis using Some
      by (simp add: correctFileReferences_def processNode_apply_updates
          apply_updates_refines[OF assms(2)] rewrite_spec_trivial)
  qed
  show "processFile gumbo_parse fs htmlFile = Some (Inr fs)"
    using assms(1) c by (simp add: processFile_def)
qed

text \<open>
  Claim C5, as stated, fails in two ways. The reference \<open>./A.jpg\<close> names the file
  \<open>A.jpg\<close> in its exact case (the entry found is the candidate path itself), and the
  document is rewritten with \<open>A.jpg\<close>, the form \<open>fs::relative\<close> gives. The reference
  \<open>TEST.JPG\<close> names the file \<open>TEST.JPG\<close> in its exact case, but the directory lists
  \<open>test.jpg\<close> before it, and the document is rewritten with \<open>test.jpg\<close>.
\<close>

theorem exactly_cased_reference_is_rewritten:
  "getActualPath dot_fs (path_append (parent_path ''/site/index.html'') ''./A.jpg'')
     = Inr (Some (path_append (parent_path ''/site/index.html'') ''./A.jpg'')) \<and>
   correctFileReferences dot_parse dot_fs ''<img src=./A.jpg>'' ''/site/index.html''
     = Some (Inr ''<img src=A.jpg>'') \<and>
   processFile dot_parse dot_fs ''/site/index.html''
     = Some (Inr (dot_fs\<lparr>file_content := (file_content dot_fs)(''/site/index.html'' \<mapsto> ''<img src=A.jpg>''),
                       write_log := [''/site/index.html'']\<rparr>)) \<and>
   exists collide_fs ''/site'' = Inr True \<and>
   ''TEST.JPG'' \<in> set (yielded (directory_iterator collide_fs ''/site'')) \<and>
   relative collide_fs ''/site/TEST.JPG'' ''/site'' = Inr ''TEST.JPG'' \<and>
   correctFileReferences collide_parse collide_fs ''<img src=TEST.JPG>'' ''/site/index.html''
     = Some (Inr ''<img src=test.jpg>'') \<and>
   processFile collide_parse collide_fs ''/site/index.html''
     = Some (Inr (collide_fs\<lparr>file_content :=
                               (file_content collide_fs)(''/site/index.html'' \<mapsto> ''<img src=test.jpg>''),
                             write_log := [''/site/index.html'']\<rparr>))"
  by (simp add: dot_fs_def dot_parse_def collide_fs_def collide_parse_def eval_defs)

text \<open>
  Claim C5, amended. On a filesystem whose directories list valid names, for a document
  in which every reference either names nothing (its parent directory does not exist or
  lists no name that matches) or is exactly cased (its parent directory exists, the
  first listed name that matches its file name is that very file name, and the reference
  is written as \<open>fs::relative\<close> writes the path of that entry), the corrected text is the
  content read and \<open>processFile\<close> leaves the filesystem exactly as it was: no write
  occurs.
\<close>

theorem no_op_when_exactly_cased:
  assumes "readFile fs htmlFile = Inr content" "wf_listing fs"
      and "\<forall>root. gumbo_parse content = Some root \<longrightarrow>
             (\<forall>literal\<in>set (references root).
                exactly_cased fs htmlFile literal \<or> names_nothing fs htmlFile literal)"
  shows "correctFileReferences gumbo_parse fs content htmlFile = Some (Inr content) \<and>
         processFile gumbo_parse fs htmlFile = Some (Inr fs)"
  using exactly_cased_no_op[where gumbo_parse = gumbo_parse and content = content, OF assms]
  by simp

text \<open>The theorem on the corrected site.\<close>

theorem no_op_when_exactly_cased_witness:
  "readFile site_fs_corrected ''/site/index.html'' = Inr ''<img src=Test.jpg>'' \<and>
   wf_listing site_fs_corrected \<and>
   site_parse ''<img src=Test.jpg>'' = Some (html_doc [Element [(''src'', ''Test.jpg'')] []]) \<and>
   references (html_doc [Element [(''src'', ''Test.jpg'')] []]) = [''Test.jpg''] \<and>
   exactly_cased site_fs_corrected ''/site/index.html'' ''Test.jpg'' \<and>
   correctFileReferences site_parse site_fs_corrected ''<img src=Test.jpg>'' ''/site/index.html''
     = Some (Inr ''<img src=Test.jpg>'') \<and>
   processFile site_parse site_fs_corrected ''/site/index.html'' = Some (Inr site_fs_corrected)"
proof -
  have a: "readFile site_fs_corrected ''/site/index.html'' = Inr ''<img src=Test.jpg>''"
    by (simp add: site_fs_corrected_def site_fs_def eval_defs)
  have p: "site_parse ''<img src=Test.jpg>'' = Some (html_doc [Element [(''src'', ''Test.jpg'')] []])"
    by (simp add: site_parse_def)
  have r: "references (html_doc [Element [(''src'', ''Test.jpg'')] []]) = [''Test.jpg'']"
    by (simp add: html_doc_def gumbo_get_attribute_def tolower_def)
  have e: "exactly_cased site_fs_corrected ''/site/index.html'' ''Test.jpg''"
    by (simp add: site_fs_corrected_def site_fs_def eval_defs)
  have h: "\<forall>root. site_parse ''<img src=Test.jpg>'' = Some root \<longrightarrow>
             (\<forall>literal\<in>set (references root).
                exactly_cased site_fs_corrected ''/site/index.html'' literal \<or>
                names_nothing site_fs_corrected ''/site/index.html'' literal)"
    using e by (simp add: p r)
  from no_op_when_exactly_cased[where gumbo_parse = site_parse, OF a wf_site_corrected h]
    a wf_site_corrected p r e
  show ?thesis by blast
qed

section \<open>The file walker\<close>

lemma findHtmlFiles_loop_yielded:
  "findHtmlFiles_loop it htmlFiles =
     (htmlFiles @ map entry_path
        (filter (\<lambda>entry. is_regular_file entry \<and> is_html (entry_path entry)) (yielded it)),
      throws it)"
  by (induction it arbitrary: htmlFiles) (auto simp: Let_def is_html_def)

lemma findHtmlFiles_loop_walk:
  "all_readable t \<Longrightarrow>
     findHtmlFiles_loop (walk dir t k) htmlFiles = findHtmlFiles_loop k (htmlFiles @ accessible_html dir t)"
  "all_readables ts \<Longrightarrow>
     findHtmlFiles_loop (walks dir ts k) htmlFiles = findHtmlFiles_loop k (htmlFiles @ accessible_htmls dir ts)"
proof (induction dir t k and dir ts k arbitrary: htmlFiles and htmlFiles rule: walk_walks.induct)
  case (1 dir name k)
  then show ?case by (simp add: Let_def is_html_def)
next
  case (2 dir name content k)
  then show ?case by simp
next
  case (3 dir name k)
  then show ?case by simp
next
  case (4 dir k)
  then show ?case by simp
next
  case (5 dir t ts k)
  then show ?case by simp
qed

lemma findHtmlFiles_loop_unreadable:
  assumes "all_readables before"
  shows "findHtmlFiles_loop (walks dir (before @ Unreadable name # after) k) htmlFiles =
           (htmlFiles @ accessible_htmls dir before, True)"
  using assms
proof (induction before arbitrary: htmlFiles)
  case Nil
  then show ?case by simp
next
  case (Cons t ts)
  then show ?case by (simp add: findHtmlFiles_loop_walk)
qed

text \<open>
  Claim C3, as stated, fails: \<open>public\<close> can be read and comes after the unreadable
  \<open>private\<close>; its \<open>page.html\<close> is not returned.
\<close>

theorem sibling_of_unreadable_directory_not_found:
  "findHtmlFiles locked_fs ''/site'' = ([''/site/docs/a.html''], [ErrorAccessingDirectory]) \<and>
   accessible_htmls ''/site'' locked_tree = [''/site/docs/a.html'', ''/site/public/page.html'']"
  by (simp add: locked_fs_def locked_tree_def eval_defs)

text \<open>
  Claim C3, amended. \<open>findHtmlFiles\<close> never fails: it returns the HTML files among the
  entries that the recursive iterator yields before it throws, and reports the error as
  a diagnostic. On a directory whose content is \<open>before\<close>, an unreadable directory and
  \<open>after\<close>, with everything in \<open>before\<close> readable, the result is the HTML files of
  \<open>before\<close> and the diagnostic: the walk ends at the unreadable directory, and nothing of
  \<open>after\<close> is returned. When everything can be read, all HTML files are returned and
  there is no diagnostic.
\<close>

theorem findHtmlFiles_stops_at_failure:
  "findHtmlFiles fs directory =
     (map entry_path
        (filter (\<lambda>entry. is_regular_file entry \<and> is_html (entry_path entry))
           (yielded (recursive_directory_iterator fs directory))),
      if throws (recursive_directory_iterator fs directory) then [ErrorAccessingDirectory] else []) \<and>
   (recursive_directory_iterator fs directory = walks directory (before @ Unreadable name # after) Done \<longrightarrow>
      all_readables before \<longrightarrow>
      findHtmlFiles fs directory = (accessible_htmls directory before, [ErrorAccessingDirectory])) \<and>
   (recursive_directory_iterator fs directory = walks directory trees Done \<longrightarrow>
      all_readables trees \<longrightarrow>
      findHtmlFiles fs directory = (accessible_htmls directory trees, []))"
proof (intro conjI impI)
  show "findHtmlFiles fs directory =
     (map entry_path
        (filter (\<lambda>entry. is_regular_file entry \<and> is_html (entry_path entry))
           (yielded (recursive_directory_iterator fs directory))),
      if throws (recursive_directory_iterator fs directory) then [ErrorAccessingDirectory] else [])"
    by (simp add: findHtmlFiles_def findHtmlFiles_loop_yielded)
next
  assume "recursive_directory_iterator fs directory = walks directory (before @ Unreadable name # after) Done"
    "all_readables before"
  then show "findHtmlFiles fs directory = (accessible_htmls directory before, [ErrorAccessingDirectory])"
    by (simp add: findHtmlFiles_def findHtmlFiles_loop_unreadable)
next
  assume "recursive_directory_iterator fs directory = walks directory trees Done"
    "all_readables trees"
  then show "findHtmlFiles fs directory = (accessible_htmls directory trees, [])"
    by (simp add: findHtmlFiles_def findHtmlFiles_loop_walk)
qed

text \<open>The theorem on the site with the unreadable directory \<open>private\<close>.\<close>

theorem findHtmlFiles_stops_at_failure_witness:
  "recursive_directory_iterator locked_fs ''/site'' =
     walks ''/site''
       ([Directory ''docs'' [RegularFile ''a.html'', RegularFile ''notes.txt'']] @
        Unreadable ''private'' # [Directory ''public'' [RegularFile ''page.html'']]) Done \<and>
   all_readables [Directory ''docs'' [RegularFile ''a.html'', RegularFile ''notes.txt'']] \<and>
   findHtmlFiles locked_fs ''/site'' = ([''/site/docs/a.html''], [ErrorAccessingDirectory])"
proof -
  have a: "recursive_directory_iterator locked_fs ''/site'' =
     walks ''/site''
       ([Directory ''docs'' [RegularFile ''a.html'', RegularFile ''notes.txt'']] @
        Unreadable ''private'' # [Directory ''public'' [RegularFile ''page.html'']]) Done"
    by (simp add: locked_fs_def locked_tree_def fixture_def)
  have b: "all_readables [Directory ''docs'' [RegularFile ''a.html'', RegularFile ''notes.txt'']]"
    by simp
  have c: "accessible_htmls ''/site'' [Directory ''docs'' [RegularFile ''a.html'', RegularFile ''notes.txt'']]
             = [''/site/docs/a.html'']"
    by (simp add: eval_defs)
  from findHtmlFiles_stops_at_failure
         [of locked_fs "''/site''" "[Directory ''docs'' [RegularFile ''a.html'', RegularFile ''notes.txt'']]"
             "''private''" "[Directory ''public'' [RegularFile ''page.html'']]"] a b
  have "findHtmlFiles locked_fs ''/site'' =
          (accessible_htmls ''/site'' [Directory ''docs'' [RegularFile ''a.html'', RegularFile ''notes.txt'']],
           [ErrorAccessingDirectory])"
    by blast
  with a b c show ?thesis by simp
qed

section \<open>The corrector on a directory\<close>

lemma processDirectory_loop_append:
  "processDirectory_loop gumbo_parse fs (xs @ ys) =
     (case processDirectory_loop gumbo_parse fs xs of
        None \<Rightarrow> None
      | Some (ds1, fs1) \<Rightarrow>
          map_option (\<lambda>(ds, fs'). (ds1 @ ds, fs')) (processDirectory_loop gumbo_parse fs1 ys))"
proof (induction xs arbitrary: fs)
  case Nil
  show ?case by (simp add: option.map_ident case_prod_unfold)
next
  case (Cons x xs)
  show ?case
  proof (cases "processFile gumbo_parse fs x")
    case None
    then show ?thesis by simp
  next
    case (Some r)
    show ?thesis
    proof (cases r)
      case (Inl e)
      then show ?thesis using Some Cons[of fs]
        by (auto simp: option.map_comp comp_def case_prod_unfold split: option.splits)
    next
      case (Inr fs1)
      then show ?thesis using Some Cons[of fs1] by simp
    qed
  qed
qed

text \<open>
  A file on which \<open>processFile\<close> throws (the file cannot be read, the resolution of a
  reference throws, or the file cannot be opened for writing) is reported, and the loop
  goes on with the files after it.
\<close>

lemma processFile_throws:
  assumes "readFile fs htmlFile = Inl e \<or>
           (\<exists>content. readFile fs htmlFile = Inr content \<and>
              (correctFileReferences gumbo_parse fs content htmlFile = Some (Inl e) \<or>
               (\<exists>corrected. correctFileReferences gumbo_parse fs content htmlFile = Some (Inr corrected) \<and>
                  content \<noteq> corrected \<and> writeFile fs htmlFile corrected = Inl e)))"
  shows "processFile gumbo_parse fs htmlFile = Some (Inl e)"
  using assms by (auto simp: processFile_def)

lemma processDirectory_continues_after_throw:
  assumes "findHtmlFiles fs startDir = (before @ htmlFile # after, ds0)"
      and "processDirectory_loop gumbo_parse fs before = Some (ds1, fs1)"
      and "processFile gumbo_parse fs1 htmlFile = Some (Inl e)"
  shows "processDirectory gumbo_parse fs startDir =
           map_option (\<lambda>(ds, fs'). (ds0 @ ds1 @ ErrorProcessing htmlFile e # ds, fs'))
             (processDirectory_loop gumbo_parse fs1 after)"
proof -
  have "processDirectory_loop gumbo_parse fs (before @ htmlFile # after) =
          map_option (\<lambda>(ds, fs'). (ds1 @ ErrorProcessing htmlFile e # ds, fs'))
            (processDirectory_loop gumbo_parse fs1 after)"
    by (simp add: processDirectory_loop_append assms(2,3) option.map_comp comp_def case_prod_unfold)
  then show ?thesis using assms(1)
    by (simp add: processDirectory_def option.map_comp comp_def case_prod_unfold)
qed

text \<open>
  Claim C8. A write failure is reported only when it is the open that fails. On the
  medium that cannot be written, the failure on \<open>index.html\<close> is reported like the read
  failure on \<open>broken.html\<close>. On the full disk the open succeeds and truncates
  \<open>index.html\<close>, nothing of the corrected text is stored, \<open>processFile\<close> returns
  normally, and \<open>processDirectory\<close> reports the read failure on \<open>broken.html\<close> alone: the
  write failure is not reported, and the file is left empty.
\<close>

theorem write_failure_after_open_is_not_reported:
  "processDirectory site_parse readonly_fs ''/site'' =
     Some ([ErrorProcessing ''/site/broken.html'' (RuntimeError ''Cannot open file: /site/broken.html''),
            ErrorProcessing ''/site/index.html'' (RuntimeError ''Cannot write file: /site/index.html'')],
           readonly_fs) \<and>
   readFile full_disk_fs ''/site/index.html'' = Inr ''<img src=test.jpg>'' \<and>
   correctFileReferences site_parse full_disk_fs ''<img src=test.jpg>'' ''/site/index.html''
     = Some (Inr ''<img src=Test.jpg>'') \<and>
   processFile site_parse full_disk_fs ''/site/index.html'' = Some (Inr full_disk_fs_after) \<and>
   file_content full_disk_fs_after ''/site/index.html'' = Some [] \<and>
   processDirectory site_parse full_disk_fs ''/site'' =
     Some ([ErrorProcessing ''/site/broken.html'' (RuntimeError ''Cannot open file: /site/broken.html'')],
           full_disk_fs_after)"
  by (simp add: readonly_fs_def full_disk_fs_after_def full_disk_fs_def site_fs_def site_parse_def
      eval_defs)




















text \<open>
  Of the conditions of \<open>independent_references\<close>, this document violates one only: the
  corrected literal \<open>a.jpg\<close> occurs inside the reference \<open>xa.jpg\<close>.
\<close>

lemmas idem_defs = independent_references_def non_interfering_def resolves_in_place_def
  sublist_Cons_right

lemma overlap_violates_non_interference_only:
  "corrections overlap_fs ''/site/index.html'' [''a.jpg'', ''xa.jpg'']
     = Inr [(''a.jpg'', ''A.jpg''), (''xa.jpg'', ''Xa.jpg'')]"
  "list_all (resolves_in_place overlap_fs ''/site/index.html'') [''a.jpg'', ''xa.jpg'']"
  "write_limit overlap_fs ''/site/index.html'' = None"
  "rewrite_spec ''<img src=a.jpg><img src=xa.jpg>'' [(''a.jpg'', ''A.jpg''), (''xa.jpg'', ''Xa.jpg'')]
     = ''<img src=A.jpg><img src=xA.jpg>''"
  "map_option references (overlap_parse ''<img src=A.jpg><img src=xA.jpg>'')
     = Some (map (\<lambda>w. rewrite_spec w [(''a.jpg'', ''A.jpg''), (''xa.jpg'', ''Xa.jpg'')])
               [''a.jpg'', ''xa.jpg''])"
  "\<not> non_interfering [(''a.jpg'', ''A.jpg''), (''xa.jpg'', ''Xa.jpg'')]
        ([''a.jpg'', ''xa.jpg''] @ [''A.jpg'', ''Xa.jpg''])"
  "\<not> independent_references overlap_parse overlap_fs ''/site/index.html''"
  by (simp_all add: overlap_fs_def overlap_parse_def eval_defs idem_defs)

text \<open>
  The document behind the symbolic link violates \<open>resolves_in_place\<close> only: the path
  \<open>B.jpg\<close> that \<open>fs::relative\<close> gives for the entry \<open>A.jpg\<close> has another file name, and
  the second run corrects it to \<open>b.jpg\<close>, which the directory lists first.
\<close>

lemma alias_violates_resolves_in_place_only:
  "processDirectory alias_parse alias_fs ''/site'' = Some ([], alias_fs_run1)"
  "processDirectory alias_parse alias_fs_run1 ''/site'' = Some ([], alias_fs_run2)"
  "file_content alias_fs_run1 ''/site/index.html'' = Some ''<img src=B.jpg>''"
  "file_content alias_fs_run2 ''/site/index.html'' = Some ''<img src=b.jpg>''"
  "corrections alias_fs ''/site/index.html'' [''a.jpg''] = Inr [(''a.jpg'', ''B.jpg'')]"
  "non_interfering [(''a.jpg'', ''B.jpg'')] ([''a.jpg''] @ [''B.jpg''])"
  "write_limit alias_fs ''/site/index.html'' = None"
  "rewrite_spec ''<img src=a.jpg>'' [(''a.jpg'', ''B.jpg'')] = ''<img src=B.jpg>''"
  "map_option references (alias_parse ''<img src=B.jpg>'')
     = Some (map (\<lambda>w. rewrite_spec w [(''a.jpg'', ''B.jpg'')]) [''a.jpg''])"
  "\<not> resolves_in_place alias_fs ''/site/index.html'' ''a.jpg''"
  by (simp_all add: alias_fs_run2_def alias_fs_run1_def alias_fs_def alias_parse_def eval_defs idem_defs)

text \<open>
  A reference written as \<open>./A.jpg\<close> resolves in place: \<open>A.jpg\<close>, which \<open>fs::relative\<close>
  gives for it, names the same entry.
\<close>

lemma dot_reference_resolves_in_place:
  "resolve dot_fs ''/site/index.html'' ''./A.jpg'' = Inr (Some ''A.jpg'')"
  "resolves_in_place dot_fs ''/site/index.html'' ''./A.jpg''"
  "resolve dot_fs ''/site/index.html'' ''A.jpg'' = Inr (Some ''A.jpg'')"
  by (simp_all add: dot_fs_def eval_defs idem_defs)




end
